theory Spec2Isabelle
  imports Complex_Main
begin

section \<open>Text helpers of the JavaScript runtime\<close>

text \<open>
  The generator (\<^verbatim>\<open>src/app.ts\<close>) reads five fixed-format text catalogues and writes one
  binary star catalogue. Source text is ASCII; a string is a list of characters.
  Numbers of the source are IEEE doubles; identifiers and counters are modelled as
  \<^typ>\<open>int\<close>, magnitudes and coordinates as \<^typ>\<open>real\<close>. The stages that build the
  registry compute positions and proper motions with exact arithmetic, so the rounding,
  the infinities and the \<^verbatim>\<open>NaN\<close> of doubles are outside the model there. In particular
  a proper motion is divided by the cosine of the declination: at a declination of 90
  degrees the cosine of the model is 0 and the quotient is 0 in HOL, where the double is a
  very large number; nothing below depends on the value of such a quotient. The magnitude
  byte of the writer, which depends on the rounding, is computed with the arithmetic of
  doubles.

  \<^verbatim>\<open>s.substring(a, b)\<close> with constants \<open>a \<le> b\<close> clamps both indices to the length of
  the string, \<^verbatim>\<open>s.substring(a)\<close> runs to the end, \<^verbatim>\<open>s.charAt(n)\<close> is the empty string
  out of range.
\<close>

definition substring :: "nat \<Rightarrow> nat \<Rightarrow> string \<Rightarrow> string" where
  "substring a b s = take (b - a) (drop a s)"

definition substringFrom :: "nat \<Rightarrow> string \<Rightarrow> string" where
  "substringFrom a s = drop a s"

definition charAt :: "nat \<Rightarrow> string \<Rightarrow> string" where
  "charAt n s = (if n < length s then [s ! n] else [])"

definition isSpace :: "char \<Rightarrow> bool" where
  "isSpace c = (c \<in> set [CHR '' '', CHR 0x09, CHR 0x0A, CHR 0x0B, CHR 0x0C, CHR 0x0D])"

definition trim :: "string \<Rightarrow> string" where
  "trim s = rev (dropWhile isSpace (rev (dropWhile isSpace s)))"

definition upperLetters :: string where
  "upperLetters = ''ABCDEFGHIJKLMNOPQRSTUVWXYZ''"

definition lowerLetters :: string where
  "lowerLetters = ''abcdefghijklmnopqrstuvwxyz''"

definition isUpper :: "char \<Rightarrow> bool" where
  "isUpper c = (c \<in> set upperLetters)"

definition isLower :: "char \<Rightarrow> bool" where
  "isLower c = (c \<in> set lowerLetters)"

definition isDigit :: "char \<Rightarrow> bool" where
  "isDigit c = (c \<in> set ''0123456789'')"

definition lowerChar :: "char \<Rightarrow> char" where
  "lowerChar c = (case map_of (zip upperLetters lowerLetters) c of None \<Rightarrow> c | Some d \<Rightarrow> d)"

definition upperChar :: "char \<Rightarrow> char" where
  "upperChar c = (case map_of (zip lowerLetters upperLetters) c of None \<Rightarrow> c | Some d \<Rightarrow> d)"

definition toLowerCase :: "string \<Rightarrow> string" where
  "toLowerCase s = map lowerChar s"

text \<open>\<^verbatim>\<open>xs.indexOf(x)\<close>: the first position of \<open>x\<close>, or \<open>-1\<close>.\<close>

fun indexOf :: "'a list \<Rightarrow> 'a \<Rightarrow> int" where
  "indexOf [] x = -1"
| "indexOf (y # ys) x = (if y = x then 0 else (let i = indexOf ys x in if i < 0 then -1 else i + 1))"

text \<open>\<^verbatim>\<open>s.startsWith(p)\<close>.\<close>

definition startsWith :: "string \<Rightarrow> string \<Rightarrow> bool" where
  "startsWith p s = (take (length p) s = p)"

text \<open>\<^verbatim>\<open>s.replace(p, r)\<close> with a string pattern replaces the first occurrence only.\<close>

fun replaceFirst :: "string \<Rightarrow> string \<Rightarrow> string \<Rightarrow> string" where
  "replaceFirst p r [] = (if p = [] then r else [])"
| "replaceFirst p r (c # cs) =
     (if startsWith p (c # cs) then r @ drop (length p) (c # cs) else c # replaceFirst p r cs)"

text \<open>\<^verbatim>\<open>s.split('|')\<close>: the fields between the separators; always at least one field.\<close>

fun splitOn :: "char \<Rightarrow> string \<Rightarrow> string list" where
  "splitOn d [] = [[]]"
| "splitOn d (c # cs) =
     (if c = d then [] # splitOn d cs
      else (case splitOn d cs of [] \<Rightarrow> [[c]] | p # ps \<Rightarrow> (c # p) # ps))"

text \<open>\<^verbatim>\<open>parts[n]\<close>: \<open>None\<close> stands for \<^verbatim>\<open>undefined\<close>.\<close>

definition part :: "string list \<Rightarrow> nat \<Rightarrow> string option" where
  "part ps n = (if n < length ps then Some (ps ! n) else None)"

text \<open>\<^verbatim>\<open>parts[0]\<close>, which a split always has.\<close>

definition firstPart :: "string list \<Rightarrow> string" where
  "firstPart ps = (case ps of [] \<Rightarrow> [] | p # _ \<Rightarrow> p)"

text \<open>
  Modelled from the spec: \<^verbatim>\<open>toMixedCase\<close> is imported from the package
  \<^verbatim>\<open>@tubular/util\<close>, which is not part of the repository. The specification says that
  names are "converted to title case": the first letter of every run of letters is put in
  upper case, the other letters of the run in lower case, every other character is kept.
\<close>

fun mixedCase :: "bool \<Rightarrow> string \<Rightarrow> string" where
  "mixedCase inWord [] = []"
| "mixedCase inWord (c # cs) =
     (if isUpper c \<or> isLower c
      then (if inWord then lowerChar c else upperChar c) # mixedCase True cs
      else c # mixedCase False cs)"

definition toMixedCase :: "string \<Rightarrow> string" where
  "toMixedCase s = mixedCase False s"

subsection \<open>Constant tables\<close>

definition bayerRanks :: "string list" where
  "bayerRanks = [''alp'', ''bet'', ''gam'', ''del'', ''eps'', ''zet'', ''eta'', ''the'', ''iot'',
     ''kap'', ''lam'', ''mu'', ''nu'', ''xi'', ''omi'', ''pi'', ''rho'', ''sig'', ''tau'', ''ups'',
     ''phi'', ''chi'', ''psi'', ''ome'']"

definition constellationCodes :: "string list" where
  "constellationCodes = [''and'', ''ant'', ''aps'', ''aql'', ''aqr'', ''ara'', ''ari'', ''aur'',
     ''boo'', ''cae'', ''cam'', ''cap'', ''car'', ''cas'', ''cen'', ''cep'', ''cet'', ''cha'',
     ''cir'', ''cma'', ''cmi'', ''cnc'', ''col'', ''com'', ''cra'', ''crb'', ''crt'', ''cru'',
     ''crv'', ''cvn'', ''cyg'', ''del'', ''dor'', ''dra'', ''equ'', ''eri'', ''for'', ''gem'',
     ''gru'', ''her'', ''hor'', ''hya'', ''hyi'', ''ind'', ''lac'', ''leo'', ''lep'', ''lib'',
     ''lmi'', ''lup'', ''lyn'', ''lyr'', ''men'', ''mic'', ''mon'', ''mus'', ''nor'', ''oct'',
     ''oph'', ''ori'', ''pav'', ''peg'', ''per'', ''phe'', ''pic'', ''psa'', ''psc'', ''pup'',
     ''pyx'', ''ret'', ''scl'', ''sco'', ''sct'', ''ser'', ''sex'', ''sge'', ''sgr'', ''tau'',
     ''tel'', ''tra'', ''tri'', ''tuc'', ''uma'', ''umi'', ''vel'', ''vir'', ''vol'', ''vul'']"

text \<open>Legacy inclusion list and magnitude limits.\<close>

definition bscExtras :: "int list" where
  "bscExtras = [8, 87, 340, 1643, 1751, 3732, 4030, 4067, 4531, 5223, 5473, 5714, 5888, 6970, 8076]"

definition magLimitBSC :: real where
  "magLimitBSC = 6"

definition magLimitHipparcos :: real where
  "magLimitHipparcos = 6.25"

subsection \<open>Regular expressions\<close>

text \<open>
  \<^verbatim>\<open>FK5_NAMES_TO_SKIP = /\d|(^[a-z][a-km-z]? )/\<close>: a digit anywhere, or at the start of the
  string one lower-case letter, then optionally one letter of \<^verbatim>\<open>a-k\<close> or \<^verbatim>\<open>m-z\<close>, then a
  space. \<open>FK5_prefix\<close> is the second alternative, \<open>FK5_NAMES_TO_SKIP\<close> is \<^verbatim>\<open>test\<close>.
\<close>

definition isLowerNotL :: "char \<Rightarrow> bool" where
  "isLowerNotL c = (c \<in> set ''abcdefghijkmnopqrstuvwxyz'')"

fun FK5_prefix :: "string \<Rightarrow> bool" where
  "FK5_prefix (c1 # c2 # cs) =
     (isLower c1 \<and>
      (c2 = CHR '' '' \<or> (isLowerNotL c2 \<and> (case cs of [] \<Rightarrow> False | c3 # _ \<Rightarrow> c3 = CHR '' ''))))"
| "FK5_prefix _ = False"

definition FK5_NAMES_TO_SKIP :: "string \<Rightarrow> bool" where
  "FK5_NAMES_TO_SKIP s = (list_ex isDigit s \<or> FK5_prefix s)"

section \<open>Data model\<close>

text \<open>
  \<^verbatim>\<open>StarInfo\<close> (\<^verbatim>\<open>src/types.ts\<close>). An object starts as \<^verbatim>\<open>{}\<close>: every field is
  \<^verbatim>\<open>undefined\<close> until it is assigned, which is \<open>None\<close> here (\<^verbatim>\<open>null\<close> for the name as
  well).
\<close>

record StarInfo =
  fk5Num :: "int option"
  bscNum :: "int option"
  hipNum :: "int option"
  ngcIcNum :: "int option"
  flamsteed :: "int option"
  bayerRank :: "int option"
  subIndex :: "int option"
  constellation :: "int option"
  ngcIcClass :: "int option"
  messierNum :: "int option"
  name :: "string option"
  RA :: "real option"
  DE :: "real option"
  pmRA :: "real option"
  pmDE :: "real option"
  vmag :: "real option"

definition emptyStar :: StarInfo where
  "emptyStar = \<lparr>fk5Num = None, bscNum = None, hipNum = None, ngcIcNum = None, flamsteed = None,
     bayerRank = None, subIndex = None, constellation = None, ngcIcClass = None,
     messierNum = None, name = None, RA = None, DE = None, pmRA = None, pmDE = None,
     vmag = None\<rparr>"

record NGCMatchInfo =
  info_ngcIcNum :: int
  info_messierNum :: int
  info_name :: string

text \<open>
  The module-level variables. \<^verbatim>\<open>fk5Index\<close> and \<^verbatim>\<open>bscIndex\<close> hold references to shared
  \<^verbatim>\<open>StarInfo\<close> objects, which later stages mutate in place: the objects live in \<open>heap\<close>
  under addresses handed out by \<open>nextRef\<close>, and the two indexes map a number to an
  address.
\<close>

record state =
  heap :: "nat \<Rightarrow> StarInfo option"
  nextRef :: nat
  fk5Index :: "int \<Rightarrow> nat option"
  hd2fk5 :: "int \<Rightarrow> int option"
  bscIndex :: "int \<Rightarrow> nat option"
  hd2bsc :: "int \<Rightarrow> int option"
  bsc2fk5 :: "int \<Rightarrow> int option"
  ngcs :: "int \<Rightarrow> NGCMatchInfo option"
  totalFK5 :: int
  totalBSC :: int
  totalHIP :: int
  totalDSO :: int
  fk5UpdatesFromHIP :: int
  bscUpdatesFromHIP :: int
  highestFK5 :: int
  highestBSC :: int
  highestHIP :: int
  highestStar :: int
  addedStars :: int
  pleiades :: "nat option"

definition initialState :: state where
  "initialState = \<lparr>heap = (\<lambda>_. None), nextRef = 0, fk5Index = (\<lambda>_. None), hd2fk5 = (\<lambda>_. None),
     bscIndex = (\<lambda>_. None), hd2bsc = (\<lambda>_. None), bsc2fk5 = (\<lambda>_. None), ngcs = (\<lambda>_. None),
     totalFK5 = 0, totalBSC = 0, totalHIP = 0, totalDSO = 0, fk5UpdatesFromHIP = 0,
     bscUpdatesFromHIP = 0, highestFK5 = 0, highestBSC = 0, highestHIP = 0, highestStar = 0,
     addedStars = 0, pleiades = None\<rparr>"

text \<open>\<^verbatim>\<open>fk5Index[k]\<close> as an object: the record behind the address, if there is one.\<close>

definition starAt :: "state \<Rightarrow> int \<Rightarrow> StarInfo option" where
  "starAt s k = (case fk5Index s k of None \<Rightarrow> None | Some r \<Rightarrow> heap s r)"

text \<open>A new object; the result is its address.\<close>

definition alloc :: "StarInfo \<Rightarrow> state \<Rightarrow> nat \<times> state" where
  "alloc star s = (nextRef s, s\<lparr>heap := (heap s)(nextRef s \<mapsto> star), nextRef := Suc (nextRef s)\<rparr>)"

text \<open>Assignment to fields of the object at an address.\<close>

definition modify :: "nat \<Rightarrow> (StarInfo \<Rightarrow> StarInfo) \<Rightarrow> state \<Rightarrow> state" where
  "modify r f s = (case heap s r of None \<Rightarrow> s | Some star \<Rightarrow> s\<lparr>heap := (heap s)(r \<mapsto> f star)\<rparr>)"

datatype error = TypeError | RangeError

text \<open>
  The helpers \<^verbatim>\<open>asLines\<close> and \<^verbatim>\<open>toNumber\<close> come from \<^verbatim>\<open>@tubular/util\<close>. A source file
  is given as the list of its lines; a line is given as its text together with the value
  of every \<^verbatim>\<open>toNumber(...)\<close> call that the code makes on it, one field per call.
\<close>

section \<open>Stage 1: the FK5 cross index\<close>

record fk5_line =
  fk5_text :: string
  fk5_fk5Num :: int  \<comment> \<open>\<^verbatim>\<open>toNumber(line.substring(0, 4))\<close>\<close>
  fk5_ra_hours :: real  \<comment> \<open>columns 6-8\<close>
  fk5_ra_mins :: real  \<comment> \<open>columns 9-11\<close>
  fk5_ra_secs :: real  \<comment> \<open>columns 12-18\<close>
  fk5_pmRA :: real  \<comment> \<open>columns 19-26\<close>
  fk5_de_degs :: real  \<comment> \<open>columns 28-30\<close>
  fk5_de_mins :: real  \<comment> \<open>columns 31-33\<close>
  fk5_de_secs :: real  \<comment> \<open>columns 34-39\<close>
  fk5_pmDE :: real  \<comment> \<open>columns 40-47\<close>
  fk5_vmag :: real  \<comment> \<open>columns 59-64\<close>
  fk5_hd :: int  \<comment> \<open>columns 86-92\<close>
  fk5_flamsteed :: int  \<comment> \<open>\<^verbatim>\<open>toNumber(bayerFlamsteed)\<close>\<close>
  fk5_subIndex :: int  \<comment> \<open>\<^verbatim>\<open>toNumber(line.substring(96, 97))\<close>\<close>

text \<open>The Flamsteed / Bayer designation and the constellation of a cross-index line.\<close>

definition fk5Designation :: "fk5_line \<Rightarrow> StarInfo \<Rightarrow> StarInfo" where
  "fk5Designation l star =
     (let line = fk5_text l;
          bayerFlamsteed = toLowerCase (trim (substring 93 96 line));
          star1 =
            (if bayerFlamsteed \<noteq> [] then
               (let st = star\<lparr>flamsteed := Some (fk5_flamsteed l)\<rparr> in
                if fk5_flamsteed l = 0 then
                  (let rank = indexOf bayerRanks bayerFlamsteed + 1;
                       st' = st\<lparr>bayerRank := Some rank\<rparr>
                   in if rank > 0 then st'\<lparr>subIndex := Some (fk5_subIndex l)\<rparr> else st')
                else st)
             else star\<lparr>flamsteed := Some 0\<rparr>)
      in if flamsteed star1 \<noteq> Some 0 \<or> bayerRank star1 \<noteq> Some 0 then
           (let c = indexOf constellationCodes
                      (replaceFirst ''pet'' ''peg'' (toLowerCase (trim (substring 98 102 line)))) + 1;
                star2 = star1\<lparr>constellation := Some c\<rparr>
            in if c = 0 then star2\<lparr>flamsteed := Some 0, bayerRank := Some 0, subIndex := Some 0\<rparr>
               else star2)
         else star1)"

text \<open>
  The proper name of a cross-index line: the text from column 103, cut at the first
  semicolon; \<open>None\<close> when \<^verbatim>\<open>star.name\<close> is left unassigned.
\<close>

definition fk5CandidateName :: "string \<Rightarrow> string" where
  "fk5CandidateName line =
     (let nm = trim (substringFrom 103 line) in
      if nm \<noteq> [] then
        (let pos = indexOf nm (CHR '';'') in
         if pos \<ge> 0 then trim (substring 0 (nat pos) nm) else nm)
      else nm)"

definition fk5Name :: "string \<Rightarrow> string option" where
  "fk5Name line =
     (let nm = trim (substringFrom 103 line) in
      if nm \<noteq> [] then
        (let pos = indexOf nm (CHR '';'');
             nm' = (if pos \<ge> 0 then trim (substring 0 (nat pos) nm) else nm)
         in if nm' \<noteq> [] \<and> \<not> FK5_NAMES_TO_SKIP nm' then Some (toMixedCase nm') else None)
      else None)"

text \<open>The record built from a cross-index line.\<close>

definition fk5Star :: "fk5_line \<Rightarrow> StarInfo" where
  "fk5Star l =
     (let line = fk5_text l;
          ra = fk5_ra_hours l + fk5_ra_mins l / 60 + fk5_ra_secs l / 3600;
          de_sign = (if charAt 27 line = ''-'' then -1 else 1);
          de = (fk5_de_degs l + fk5_de_mins l / 60 + fk5_de_secs l / 3600) * de_sign;
          star0 = emptyStar\<lparr>fk5Num := Some (fk5_fk5Num l), RA := Some ra,
                    pmRA := Some (fk5_pmRA l), DE := Some de, pmDE := Some (fk5_pmDE l),
                    vmag := Some (fk5_vmag l)\<rparr>;
          star1 = fk5Designation l star0
      in case fk5Name line of None \<Rightarrow> star1 | Some nm \<Rightarrow> star1\<lparr>name := Some nm\<rparr>)"

definition crossIndexLine :: "state \<Rightarrow> fk5_line \<Rightarrow> state" where
  "crossIndexLine s l =
     (let line = fk5_text l in
      if trim line = [] then s
      else
        (let num = fk5_fk5Num l;
             hF = max (highestFK5 s) num;
             table = (if length line \<ge> 92 \<and> fk5_hd l > 0 then (hd2fk5 s)(fk5_hd l \<mapsto> num)
                      else hd2fk5 s);
             star = fk5Star l;
             (r, s1) = alloc star (s\<lparr>highestFK5 := hF, highestStar := hF, hd2fk5 := table\<rparr>);
             s2 = s1\<lparr>totalFK5 := totalFK5 s1 + 1, fk5Index := (fk5Index s1)(num \<mapsto> r)\<rparr>
         in if num = 139 then
              (let (p, s3) = alloc (emptyStar\<lparr>messierNum := Some 45, name := Some ''Pleiades'',
                                      RA := RA star, DE := DE star, pmRA := pmRA star,
                                      pmDE := pmDE star, vmag := Some 1.6\<rparr>) s2
               in s3\<lparr>pleiades := Some p\<rparr>)
            else s2))"

definition processCrossIndex :: "state \<Rightarrow> fk5_line list \<Rightarrow> state" where
  "processCrossIndex s ls = foldl crossIndexLine s ls"

section \<open>Stage 2: the Yale Bright Star Catalog\<close>

record bsc_line =
  bsc_text :: string
  bsc_bscNum :: int  \<comment> \<open>\<^verbatim>\<open>toNumber(line.substring(0, 4))\<close>\<close>
  bsc_fk5 :: int  \<comment> \<open>\<^verbatim>\<open>toNumber\<close> of columns 37-41\<close>
  bsc_vmag :: real  \<comment> \<open>\<^verbatim>\<open>toNumber(vmagStr)\<close>\<close>
  bsc_hd :: int  \<comment> \<open>columns 25-31\<close>
  bsc_ra_hours :: real  \<comment> \<open>columns 75-77\<close>
  bsc_ra_mins :: real  \<comment> \<open>columns 77-79\<close>
  bsc_ra_secs :: real  \<comment> \<open>columns 79-83\<close>
  bsc_de_degs :: real  \<comment> \<open>columns 84-86\<close>
  bsc_de_mins :: real  \<comment> \<open>columns 86-88\<close>
  bsc_de_secs :: real  \<comment> \<open>columns 88-90\<close>
  bsc_pmRA :: real  \<comment> \<open>columns 148-154\<close>
  bsc_pmDE :: real  \<comment> \<open>columns 154-160\<close>
  bsc_flamsteed :: int  \<comment> \<open>\<^verbatim>\<open>toNumber(name.substring(0, 3).trim())\<close>\<close>
  bsc_subIndex :: int  \<comment> \<open>\<^verbatim>\<open>toNumber(name.substring(6, 7))\<close>\<close>

definition bsc_name :: "bsc_line \<Rightarrow> string" where
  "bsc_name l = substring 4 14 (bsc_text l)"

definition bsc_vmagStr :: "bsc_line \<Rightarrow> string" where
  "bsc_vmagStr l = trim (substring 102 107 (bsc_text l))"

definition bsc_bayerRank :: "bsc_line \<Rightarrow> int" where
  "bsc_bayerRank l = indexOf bayerRanks (toLowerCase (trim (substring 3 6 (bsc_name l)))) + 1"

subsection \<open>First scan: duplicates\<close>

text \<open>The local variables of the first loop; \<^verbatim>\<open>bsc2fk5\<close> is carried beside them.\<close>

record scan =
  dupes :: int
  lastBSC :: int
  lastFK5 :: int
  lastName :: string
  lastMag :: real

definition initialScan :: scan where
  "initialScan = \<lparr>dupes = 0, lastBSC = -1, lastFK5 = -1, lastName = [], lastMag = 999.9\<rparr>"

text \<open>\<^verbatim>\<open>currFK5\<close>: the primary number of the line, dropped when beyond the primary block.\<close>

definition scanFK5 :: "int \<Rightarrow> bsc_line \<Rightarrow> int" where
  "scanFK5 hF l = (if bsc_fk5 l > hF then 0 else bsc_fk5 l)"

definition scanLine :: "int \<Rightarrow> (int \<Rightarrow> int option) \<times> scan \<Rightarrow> bsc_line \<Rightarrow> (int \<Rightarrow> int option) \<times> scan" where
  "scanLine hF ts l =
     (let t = fst ts; sc = snd ts in
      if trim (bsc_text l) = [] then (t, sc)
      else
        (let currBSC = bsc_bscNum l;
             t0 = t(currBSC \<mapsto> 0);
             currName = bsc_name l;
             currFK5 = scanFK5 hF l
         in if bsc_vmagStr l = [] then (t0, sc)
            else
              (let currMag = bsc_vmag l in
               if currName = lastName sc \<and> trim currName \<noteq> [] then
                 (let m = max (lastFK5 sc) currFK5;
                      t1 = (t0(lastBSC sc \<mapsto> m))(currBSC \<mapsto> m);
                      sc1 = sc\<lparr>lastFK5 := m, dupes := dupes sc + 1\<rparr>
                  in if currMag \<ge> lastMag sc then (t1(currBSC := None), sc1)
                     else (t1(lastBSC sc := None),
                           sc1\<lparr>lastBSC := currBSC, lastFK5 := m, lastName := currName,
                               lastMag := currMag\<rparr>))
               else (t0, sc\<lparr>lastBSC := currBSC, lastFK5 := currFK5, lastName := currName,
                               lastMag := currMag\<rparr>))))"

definition firstScan :: "int \<Rightarrow> (int \<Rightarrow> int option) \<Rightarrow> bsc_line list \<Rightarrow> (int \<Rightarrow> int option) \<times> scan" where
  "firstScan hF t ls = foldl (scanLine hF) (t, initialScan) ls"

subsection \<open>Second scan: acceptance and merge\<close>

text \<open>The magnitude / legacy list / Bayer rank part of the acceptance condition.\<close>

definition brightEnough :: "real \<Rightarrow> int \<Rightarrow> int \<Rightarrow> bool" where
  "brightEnough v bscN rank =
     (v \<le> magLimitBSC \<or> bscN \<in> set bscExtras \<or>
      (rank > 0 \<and> ((rank < 14 \<and> v \<le> 6) \<or> (rank < 8 \<and> v \<le> 6.5))))"

text \<open>The primary number of a line in the second scan, \<open>e\<close> being \<^verbatim>\<open>bsc2fk5[bscNum]\<close>.\<close>

definition resolvedFK5 :: "state \<Rightarrow> bsc_line \<Rightarrow> int \<Rightarrow> int" where
  "resolvedFK5 s l e =
     (if trim (substring 37 41 (bsc_text l)) = [] then e
      else if bsc_fk5 l > highestFK5 s then 0 else bsc_fk5 l)"

text \<open>A new record at the next key after the primary block.\<close>

definition brightStar :: "bsc_line \<Rightarrow> StarInfo" where
  "brightStar l =
     (let line = bsc_text l;
          ra = bsc_ra_hours l + bsc_ra_mins l / 60 + bsc_ra_secs l / 3600;
          de_sign = (if charAt 83 line = ''-'' then -1 else 1);
          de = (bsc_de_degs l + bsc_de_mins l / 60 + bsc_de_secs l / 3600) * de_sign
      in emptyStar\<lparr>vmag := Some (bsc_vmag l), RA := Some ra, DE := Some de,
           pmRA := Some (bsc_pmRA l * 6.6667 / cos (de * pi / 180)),
           pmDE := Some (bsc_pmDE l * 100)\<rparr>)"

definition addBrightStar :: "state \<Rightarrow> bsc_line \<Rightarrow> int \<times> state" where
  "addBrightStar s l =
     (let added = addedStars s + 1;
          key = highestFK5 s + added;
          (r, s1) = alloc (brightStar l) (s\<lparr>addedStars := added\<rparr>)
      in (key, s1\<lparr>fk5Index := (fk5Index s1)(key \<mapsto> r), totalBSC := totalBSC s1 + 1,
                 highestBSC := key, highestStar := key\<rparr>))"

text \<open>The bright-star fields of the record at key \<open>k\<close> and the cross-reference tables.\<close>

definition annotateBrightStar :: "state \<Rightarrow> bsc_line \<Rightarrow> int \<Rightarrow> nat \<Rightarrow> state" where
  "annotateBrightStar s l k r =
     (let bscN = bsc_bscNum l;
          nm = bsc_name l;
          s1 = modify r (\<lambda>star. star\<lparr>bscNum := Some bscN\<rparr>) s;
          s2 = s1\<lparr>bsc2fk5 := (bsc2fk5 s1)(bscN \<mapsto> k), bscIndex := (bscIndex s1)(bscN \<mapsto> r)\<rparr>;
          s3 = (if bsc_hd l > 0 then s2\<lparr>hd2bsc := (hd2bsc s2)(bsc_hd l \<mapsto> bscN)\<rparr> else s2)
      in if trim nm \<noteq> [] then
           modify r (\<lambda>star. star\<lparr>flamsteed := Some (bsc_flamsteed l),
                       bayerRank := Some (bsc_bayerRank l), subIndex := Some (bsc_subIndex l),
                       constellation :=
                         Some (indexOf constellationCodes (toLowerCase (substring 7 10 nm)) + 1)\<rparr>) s3
         else s3)"

definition mergeLine :: "state \<Rightarrow> bsc_line \<Rightarrow> state" where
  "mergeLine s l =
     (if trim (bsc_text l) = [] then s
      else
        (case bsc2fk5 s (bsc_bscNum l) of
           None \<Rightarrow> s
         | Some e \<Rightarrow>
             (let fk5N = resolvedFK5 s l e in
              if bsc_vmagStr l = [] then s
              else
                (let (k, s1) =
                       (if brightEnough (bsc_vmag l) (bsc_bscNum l) (bsc_bayerRank l) \<and>
                           (fk5N = 0 \<or> fk5N > highestFK5 s \<or> fk5Index s fk5N = None)
                        then addBrightStar s l else (fk5N, s))
                 in if k > 0 then
                      (case fk5Index s1 k of None \<Rightarrow> s1 | Some r \<Rightarrow> annotateBrightStar s1 l k r)
                    else s1))))"

definition processYaleBrightStarCatalog :: "state \<Rightarrow> bsc_line list \<Rightarrow> state" where
  "processYaleBrightStarCatalog s ls =
     foldl mergeLine (s\<lparr>bsc2fk5 := fst (firstScan (highestFK5 s) (bsc2fk5 s) ls)\<rparr>) ls"

section \<open>Stage 3: the Bright Star notes\<close>

record note_line =
  note_text :: string
  note_bscNum :: int  \<comment> \<open>\<^verbatim>\<open>toNumber(line.substring(0, 5))\<close>\<close>

text \<open>
  \<^verbatim>\<open>/^([A-Z][A-Z ]+)[.;]/\<close>: an upper-case letter, the longest run of upper-case letters
  and spaces after it (at least one), then a full stop or a semicolon. The result is the
  captured group.
\<close>

definition isUpperOrSpace :: "char \<Rightarrow> bool" where
  "isUpperOrSpace c = (isUpper c \<or> c = CHR '' '')"

definition noteName :: "string \<Rightarrow> string option" where
  "noteName s =
     (case s of
        [] \<Rightarrow> None
      | c # cs \<Rightarrow>
          (let run = takeWhile isUpperOrSpace cs; rest = dropWhile isUpperOrSpace cs in
           if isUpper c \<and> run \<noteq> [] \<and> (case rest of [] \<Rightarrow> False | d # _ \<Rightarrow> d = CHR ''.'' \<or> d = CHR '';'')
           then Some (c # run) else None))"

text \<open>
  One line of the notes. \<^verbatim>\<open>fk5Index[bsc2fk5[bscNum]].name = ...\<close> throws a
  \<^verbatim>\<open>TypeError\<close> when the looked-up record is \<^verbatim>\<open>undefined\<close>.
\<close>

definition noteLine :: "state \<Rightarrow> note_line \<Rightarrow> error + state" where
  "noteLine s l =
     (let line = note_text l in
      if trim line = [] then Inr s
      else if bsc2fk5 s (note_bscNum l) = Some 0 then Inr s
      else if trim (substring 5 11 line) \<noteq> ''1N:'' then Inr s
      else
        (case noteName (substringFrom 12 line) of
           None \<Rightarrow> Inr s
         | Some nm \<Rightarrow>
             (case (case bsc2fk5 s (note_bscNum l) of None \<Rightarrow> None | Some k \<Rightarrow> fk5Index s k) of
                None \<Rightarrow> Inl TypeError
              | Some r \<Rightarrow> Inr (modify r (\<lambda>star. star\<lparr>name := Some (toMixedCase nm)\<rparr>) s))))"

fun processYaleBrightStarCatalogNotes :: "state \<Rightarrow> note_line list \<Rightarrow> error + state" where
  "processYaleBrightStarCatalogNotes s [] = Inr s"
| "processYaleBrightStarCatalogNotes s (l # ls) =
     (case noteLine s l of Inl e \<Rightarrow> Inl e | Inr s' \<Rightarrow> processYaleBrightStarCatalogNotes s' ls)"

section \<open>Stage 4: the Hipparcos catalogue\<close>

record hip_line =
  hip_text :: string
  hip_hipNum :: int  \<comment> \<open>\<^verbatim>\<open>toNumber(parts[3])\<close>\<close>
  hip_hdNum :: int  \<comment> \<open>\<^verbatim>\<open>toNumber(parts[7])\<close>\<close>
  hip_vmag :: real  \<comment> \<open>\<^verbatim>\<open>toNumber(vmagStr)\<close>\<close>
  hip_ra :: real  \<comment> \<open>\<^verbatim>\<open>toNumber(raStr)\<close>\<close>
  hip_de :: real  \<comment> \<open>\<^verbatim>\<open>toNumber(deStr)\<close>\<close>
  hip_pmRA :: real  \<comment> \<open>\<^verbatim>\<open>toNumber(pmRAStr)\<close>\<close>
  hip_pmDE :: real  \<comment> \<open>\<^verbatim>\<open>toNumber(pmDEStr)\<close>\<close>

text \<open>\<^verbatim>\<open>/^\|[^a-z]/i\<close>: a bar, then any character that is not a letter.\<close>

definition isDataRow :: "string \<Rightarrow> bool" where
  "isDataRow s =
     (case s of c1 # c2 # _ \<Rightarrow> c1 = CHR ''|'' \<and> \<not> isLower c2 \<and> \<not> isUpper c2 | _ \<Rightarrow> False)"

text \<open>\<^verbatim>\<open>!str\<close> for a field of \<^verbatim>\<open>parts\<close>: missing or empty.\<close>

definition missing :: "string option \<Rightarrow> bool" where
  "missing p = (p = None \<or> p = Some [])"

definition hipParts :: "hip_line \<Rightarrow> string list" where
  "hipParts l = map trim (splitOn (CHR ''|'') (hip_text l))"

text \<open>The row passes the guards at the head of the loop body.\<close>

definition hipUsable :: "hip_line \<Rightarrow> bool" where
  "hipUsable l =
     (isDataRow (trim (hip_text l)) \<and> hip_hipNum l \<noteq> 0 \<and>
      \<not> (missing (part (hipParts l) 5) \<or> missing (part (hipParts l) 6) \<or>
         missing (part (hipParts l) 4) \<or> missing (part (hipParts l) 1) \<or>
         missing (part (hipParts l) 2)))"

definition hipFK5 :: "state \<Rightarrow> hip_line \<Rightarrow> int" where
  "hipFK5 s l = (if hip_hdNum l > 0 then (case hd2fk5 s (hip_hdNum l) of None \<Rightarrow> 0 | Some k \<Rightarrow> k) else 0)"

definition hipBSC :: "state \<Rightarrow> hip_line \<Rightarrow> int" where
  "hipBSC s l = (if hip_hdNum l > 0 then (case hd2bsc s (hip_hdNum l) of None \<Rightarrow> 0 | Some k \<Rightarrow> k) else 0)"

text \<open>The five assignments to the fields of \<^verbatim>\<open>star\<close>.\<close>

definition hipUpdate :: "hip_line \<Rightarrow> StarInfo \<Rightarrow> StarInfo" where
  "hipUpdate l star =
     star\<lparr>vmag := Some (min (hip_vmag l) (case vmag star of None \<Rightarrow> hip_vmag l | Some v \<Rightarrow> v)),
          RA := Some (hip_ra l / 15),
          DE := Some (hip_de l),
          pmRA := Some (hip_pmRA l * 0.0066667 / cos (hip_de l * pi / 180)),
          pmDE := Some (hip_pmDE l / 10)\<rparr>"

text \<open>
  An existing record is updated through its address; a missing one makes
  \<^verbatim>\<open>star.vmag\<close> throw.
\<close>

definition hipMatched :: "state \<Rightarrow> hip_line \<Rightarrow> nat option \<Rightarrow> error + state" where
  "hipMatched s l ref =
     (case ref of
        None \<Rightarrow> Inl TypeError
      | Some r \<Rightarrow> (case heap s r of None \<Rightarrow> Inl TypeError | Some _ \<Rightarrow> Inr (modify r (hipUpdate l) s)))"

definition addHipparcosStar :: "state \<Rightarrow> hip_line \<Rightarrow> state" where
  "addHipparcosStar s l =
     (let (r, s1) = alloc (hipUpdate l (emptyStar\<lparr>hipNum := Some (hip_hipNum l)\<rparr>)) s;
          added = addedStars s1 + 1;
          key = highestFK5 s1 + added
      in s1\<lparr>addedStars := added, fk5Index := (fk5Index s1)(key \<mapsto> r),
             totalHIP := totalHIP s1 + 1, highestHIP := key, highestStar := key\<rparr>)"

text \<open>One row; the flag of the result says that the loop ends here (\<^verbatim>\<open>break\<close>).\<close>

definition hipLine :: "state \<Rightarrow> hip_line \<Rightarrow> error + (bool \<times> state)" where
  "hipLine s l =
     (if \<not> hipUsable l then Inr (False, s)
      else if hipFK5 s l > 0 then
        (case hipMatched (s\<lparr>fk5UpdatesFromHIP := fk5UpdatesFromHIP s + 1\<rparr>) l
                (fk5Index s (hipFK5 s l)) of
           Inl e \<Rightarrow> Inl e | Inr s' \<Rightarrow> Inr (False, s'))
      else if hipBSC s l > 0 then
        (case hipMatched (s\<lparr>bscUpdatesFromHIP := bscUpdatesFromHIP s + 1\<rparr>) l
                (bscIndex s (hipBSC s l)) of
           Inl e \<Rightarrow> Inl e | Inr s' \<Rightarrow> Inr (False, s'))
      else if hip_vmag l > magLimitHipparcos then Inr (True, s)
      else Inr (False, addHipparcosStar s l))"

fun hipLoop :: "state \<Rightarrow> hip_line list \<Rightarrow> error + state" where
  "hipLoop s [] = Inr s"
| "hipLoop s (l # ls) =
     (case hipLine s l of
        Inl e \<Rightarrow> Inl e
      | Inr (stop, s') \<Rightarrow> if stop then Inr s' else hipLoop s' ls)"

text \<open>The Pleiades entry, when Alcyone (FK5 139) was found in stage 1.\<close>

definition appendPleiades :: "state \<Rightarrow> state" where
  "appendPleiades s =
     (case pleiades s of
        None \<Rightarrow> s
      | Some p \<Rightarrow>
          (let n = totalDSO s + 1 in
           s\<lparr>totalDSO := n, fk5Index := (fk5Index s)(highestStar s + n \<mapsto> p)\<rparr>))"

definition processHipparcosStarCatalog :: "state \<Rightarrow> hip_line list \<Rightarrow> error + state" where
  "processHipparcosStarCatalog s ls =
     (case hipLoop s ls of Inl e \<Rightarrow> Inl e | Inr s' \<Rightarrow> Inr (appendPleiades s'))"

section \<open>Stage 5: NGC / IC objects\<close>

record ngc_name_line =
  nn_text :: string
  nn_number :: int  \<comment> \<open>\<^verbatim>\<open>toNumber(ngcIcStr.substring(1))\<close>\<close>
  nn_messier :: int  \<comment> \<open>\<^verbatim>\<open>toNumber(name.substring(1))\<close>\<close>

text \<open>One line of the names file; the counter of divider lines is local to the loop.\<close>

definition ngcNameLine :: "(int \<Rightarrow> NGCMatchInfo option) \<times> nat \<Rightarrow> ngc_name_line \<Rightarrow> (int \<Rightarrow> NGCMatchInfo option) \<times> nat" where
  "ngcNameLine td l =
     (let t = fst td; dividerCount = snd td; line = nn_text l in
      if startsWith ''-'' line then (t, dividerCount + 1)
      else if line = [] \<or> dividerCount < 2 then (t, dividerCount)
      else
        (let parts = splitOn (CHR ''|'') line in
         case part parts 1 of
           None \<Rightarrow> (t, dividerCount)
         | Some ngcIcStr \<Rightarrow>
             if ngcIcStr = [] then (t, dividerCount)
             else
               (let num = nn_number l * (if startsWith ''I'' ngcIcStr then -1 else 1) in
                if num = 0 then (t, dividerCount)
                else
                  (let nm0 = trim (firstPart parts);
                       nm1 = (if nm0 = ''Great Nebula in Andromeda'' then ''Andromeda galaxy'' else nm0);
                       messier = (if startsWith ''M '' nm1 then nn_messier l else 0);
                       nm = (if startsWith ''M '' nm1 then [] else nm1)
                   in case t num of
                        None \<Rightarrow>
                          (t(num \<mapsto> \<lparr>info_ngcIcNum = num, info_messierNum = messier, info_name = nm\<rparr>),
                           dividerCount)
                      | Some info \<Rightarrow>
                          (let info1 =
                                 (if info_name info = [] then info\<lparr>info_name := nm\<rparr>
                                  else if length nm > 0
                                  then info\<lparr>info_name := info_name info @ ''/'' @ nm\<rparr>
                                  else info);
                               info2 =
                                 (if info_messierNum info1 \<noteq> 0 \<and> messier \<noteq> 0 then info1
                                  else if messier \<noteq> 0 then info1\<lparr>info_messierNum := messier\<rparr>
                                  else info1)
                           in (t(num \<mapsto> info2), dividerCount))))))"

definition processNgcNames :: "state \<Rightarrow> ngc_name_line list \<Rightarrow> state" where
  "processNgcNames s ls = s\<lparr>ngcs := fst (foldl ngcNameLine (ngcs s, 0) ls)\<rparr>"

record ngc_data_line =
  nd_text :: string
  nd_vmag :: real  \<comment> \<open>\<^verbatim>\<open>toNumber(parts[7], 1000)\<close>\<close>
  nd_number :: int  \<comment> \<open>\<^verbatim>\<open>toNumber(ngcIcStr.substring(1))\<close>\<close>
  nd_ra_hours :: real  \<comment> \<open>\<^verbatim>\<open>toNumber(raAndD.substring(0, 2))\<close>\<close>
  nd_ra_mins :: real  \<comment> \<open>\<^verbatim>\<open>toNumber(raAndD.substring(3, 7))\<close>\<close>
  nd_de_degs :: real  \<comment> \<open>\<^verbatim>\<open>toNumber(raAndD.substring(9, 11))\<close>\<close>
  nd_de_mins :: real  \<comment> \<open>\<^verbatim>\<open>toNumber(raAndD.substring(12, 14))\<close>\<close>

text \<open>
  The record built from a data line and the matching name entry, if any. It has no
  proper-motion field. \<^verbatim>\<open>parts[2]\<close> and \<^verbatim>\<open>parts[4]\<close> are used without a check: a line
  with fewer fields throws.
\<close>

definition ngcStar :: "ngc_data_line \<Rightarrow> int \<Rightarrow> NGCMatchInfo option \<Rightarrow> string \<Rightarrow> string \<Rightarrow> StarInfo" where
  "ngcStar l num info raAndD constellationStr =
     (let de_sign = (if charAt 8 raAndD = ''-'' then -1 else 1) in
      emptyStar\<lparr>fk5Num := Some 0, bscNum := Some 0, ngcIcNum := Some num,
                vmag := Some (nd_vmag l),
                messierNum := Some (case info of None \<Rightarrow> 0 | Some i \<Rightarrow> info_messierNum i),
                name := (case info of None \<Rightarrow> None | Some i \<Rightarrow> Some (info_name i)),
                RA := Some (nd_ra_hours l + nd_ra_mins l / 60),
                DE := Some ((nd_de_degs l + nd_de_mins l / 60) * de_sign),
                constellation := Some (indexOf constellationCodes constellationStr + 1)\<rparr>)"

text \<open>\<^verbatim>\<open>++totalDSO; fk5Index[highestStar + totalDSO] = star\<close> for a new object.\<close>

definition addDeepSkyObject :: "state \<Rightarrow> StarInfo \<Rightarrow> state" where
  "addDeepSkyObject s star =
     (let (r, s1) = alloc star s;
          n = totalDSO s1 + 1
      in s1\<lparr>totalDSO := n, fk5Index := (fk5Index s1)(highestStar s1 + n \<mapsto> r)\<rparr>)"

definition ngcDataLine :: "state \<times> nat \<Rightarrow> ngc_data_line \<Rightarrow> error + state \<times> nat" where
  "ngcDataLine sd l =
     (let s = fst sd; dividerCount = snd sd; line = nd_text l in
      if startsWith ''-'' line then Inr (s, dividerCount + 1)
      else if line = [] \<or> dividerCount < 2 then Inr (s, dividerCount)
      else
        (let parts = splitOn (CHR ''|'') line;
             ngcIcStr = firstPart parts;
             num = nd_number l * (if startsWith ''I'' ngcIcStr then -1 else 1);
             info = ngcs s num
         in if info = None \<and> nd_vmag l > 6.0 then Inr (s, dividerCount)
            else
              (case part parts 2 of
                 None \<Rightarrow> Inl TypeError
               | Some raAndD \<Rightarrow>
                   (case part parts 4 of
                      None \<Rightarrow> Inl TypeError
                    | Some c \<Rightarrow>
                        Inr (addDeepSkyObject s (ngcStar l num info raAndD (toLowerCase c)),
                             dividerCount)))))"

fun ngcDataLoop :: "state \<times> nat \<Rightarrow> ngc_data_line list \<Rightarrow> error + state \<times> nat" where
  "ngcDataLoop sd [] = Inr sd"
| "ngcDataLoop sd (l # ls) =
     (case ngcDataLine sd l of Inl e \<Rightarrow> Inl e | Inr sd' \<Rightarrow> ngcDataLoop sd' ls)"

definition processNgcData :: "state \<Rightarrow> ngc_data_line list \<Rightarrow> error + state" where
  "processNgcData s ls =
     (case ngcDataLoop (s, 0) ls of Inl e \<Rightarrow> Inl e | Inr sd \<Rightarrow> Inr (fst sd))"

section \<open>Double-precision arithmetic\<close>

text \<open>
  A number of the program is an IEEE 754 double: a finite one, given here by its value, an
  infinity or \<^verbatim>\<open>NaN\<close>. The two zeros are not told apart (the writer never divides by one).
\<close>

datatype double = Finite real | PlusInfinity | MinusInfinity | NaN

text \<open>
  The binary exponent \<open>e\<close> of a number \<open>x\<close>, the one with \<open>2 powi e \<le> \<bar>x\<bar> < 2 powi (e + 1)\<close>,
  found by halving or doubling: it is at least \<open>-1022\<close> (smaller numbers are subnormal
  and share the exponent \<open>-1022\<close>), and at most 1100, far beyond the largest double.
\<close>

fun halvings :: "nat \<Rightarrow> real \<Rightarrow> nat" where
  "halvings 0 x = 0"
| "halvings (Suc k) x = (if x < 2 then 0 else Suc (halvings k (x / 2)))"

fun doublings :: "nat \<Rightarrow> real \<Rightarrow> nat" where
  "doublings 0 x = 0"
| "doublings (Suc k) x = (if 1 \<le> x then 0 else Suc (doublings k (2 * x)))"

definition exponent :: "real \<Rightarrow> int" where
  "exponent x = (if 1 \<le> \<bar>x\<bar> then int (halvings 1100 \<bar>x\<bar>) else - int (doublings 1022 \<bar>x\<bar>))"

text \<open>
  The doubles of one exponent are the multiples of the unit in the last place, 52 binary
  digits below the exponent. The result of an operation is the exact result rounded to the
  nearest of them, to the one with an even multiple when two are as near, and it is an
  infinity from \<open>2 ^ 1024\<close> on.
\<close>

definition ulp :: "real \<Rightarrow> real" where
  "ulp x = 2 powi (exponent x - 52)"

definition roundTiesToEven :: "real \<Rightarrow> int" where
  "roundTiesToEven q =
     (let n = \<lfloor>q\<rfloor>; r = q - of_int n
      in if r < 1 / 2 then n else if 1 / 2 < r then n + 1 else if even n then n else n + 1)"

definition nearest :: "real \<Rightarrow> real" where
  "nearest x = of_int (roundTiesToEven (x / ulp x)) * ulp x"

definition toDouble :: "real \<Rightarrow> double" where
  "toDouble x =
     (let y = nearest x
      in if 2 ^ 1024 \<le> y then PlusInfinity else if y \<le> - (2 ^ 1024) then MinusInfinity
         else Finite y)"

definition isDouble :: "real \<Rightarrow> bool" where
  "isDouble x \<longleftrightarrow> toDouble x = Finite x"

text \<open>Addition and multiplication of doubles (\<^verbatim>\<open>+\<close> and \<^verbatim>\<open>*\<close> of the source).\<close>

fun dadd :: "double \<Rightarrow> double \<Rightarrow> double" where
  "dadd (Finite a) (Finite b) = toDouble (a + b)"
| "dadd NaN _ = NaN"
| "dadd _ NaN = NaN"
| "dadd PlusInfinity MinusInfinity = NaN"
| "dadd MinusInfinity PlusInfinity = NaN"
| "dadd PlusInfinity _ = PlusInfinity"
| "dadd MinusInfinity _ = MinusInfinity"
| "dadd _ PlusInfinity = PlusInfinity"
| "dadd _ MinusInfinity = MinusInfinity"

definition dneg :: "double \<Rightarrow> double" where
  "dneg a = (case a of Finite x \<Rightarrow> Finite (- x) | PlusInfinity \<Rightarrow> MinusInfinity
             | MinusInfinity \<Rightarrow> PlusInfinity | NaN \<Rightarrow> NaN)"

definition infinityTimes :: "double \<Rightarrow> real \<Rightarrow> double" where
  "infinityTimes a b = (if b = 0 then NaN else if 0 < b then a else dneg a)"

fun dmul :: "double \<Rightarrow> double \<Rightarrow> double" where
  "dmul (Finite a) (Finite b) = toDouble (a * b)"
| "dmul NaN _ = NaN"
| "dmul _ NaN = NaN"
| "dmul (Finite a) b = infinityTimes b a"
| "dmul a (Finite b) = infinityTimes a b"
| "dmul a b = (if a = b then PlusInfinity else MinusInfinity)"

text \<open>
  \<^verbatim>\<open>floor\<close>, \<^verbatim>\<open>max\<close> and \<^verbatim>\<open>min\<close> (from \<^verbatim>\<open>@tubular/math\<close>, those of \<^verbatim>\<open>Math\<close>): \<^verbatim>\<open>floor\<close>
  keeps an infinity and \<^verbatim>\<open>NaN\<close>, and \<^verbatim>\<open>max\<close> and \<^verbatim>\<open>min\<close> are \<^verbatim>\<open>NaN\<close> when an
  argument is.
\<close>

fun dfloor :: "double \<Rightarrow> double" where
  "dfloor (Finite x) = Finite (of_int \<lfloor>x\<rfloor>)"
| "dfloor a = a"

fun dmax :: "double \<Rightarrow> double \<Rightarrow> double" where
  "dmax NaN _ = NaN"
| "dmax _ NaN = NaN"
| "dmax PlusInfinity _ = PlusInfinity"
| "dmax _ PlusInfinity = PlusInfinity"
| "dmax MinusInfinity b = b"
| "dmax a MinusInfinity = a"
| "dmax (Finite x) (Finite y) = Finite (max x y)"

fun dmin :: "double \<Rightarrow> double \<Rightarrow> double" where
  "dmin NaN _ = NaN"
| "dmin _ NaN = NaN"
| "dmin MinusInfinity _ = MinusInfinity"
| "dmin _ MinusInfinity = MinusInfinity"
| "dmin PlusInfinity b = b"
| "dmin a PlusInfinity = a"
| "dmin (Finite x) (Finite y) = Finite (min x y)"

text \<open>
  A whole number as the value of a write call for integers; \<open>None\<close> stands for \<^verbatim>\<open>NaN\<close>
  (and for an infinity, which the clamped values below never are).
\<close>

fun integerValue :: "double \<Rightarrow> int option" where
  "integerValue (Finite x) = Some \<lfloor>x\<rfloor>"
| "integerValue _ = None"

section \<open>The writer\<close>

text \<open>
  The output file as the sequence of write calls, each with the value handed to it
  (\<open>None\<close> for \<^verbatim>\<open>undefined\<close> or \<^verbatim>\<open>NaN\<close>): \<open>UInt8 (Some 255)\<close> is the byte \<^verbatim>\<open>0xFF\<close>,
  \<open>Float (Some 0)\<close> the four bytes of the single-precision number \<open>0.0\<close>. The summary
  statistics \<^verbatim>\<open>bMag\<close> and \<^verbatim>\<open>dMag\<close> are only printed and are left out.
\<close>

datatype out_item =
    UInt8 "int option"
  | UInt16 "int option"
  | Int16 "int option"
  | Float "real option"
  | Double "real option"
  | Bytes string

text \<open>
  \<^verbatim>\<open>compressedMag = floor((star.vmag + 2.0) * 10.0 + 0.5)\<close> and then
  \<^verbatim>\<open>compressedMag = min(max(compressedMag, 0), 255)\<close>, every operation one of doubles.
  The magnitude \<open>v\<close> of a record is kept in the registry as the number that was read;
  \<^verbatim>\<open>star.vmag\<close> is the double of that number, \<open>toDouble v\<close> (the number itself when it is a
  double).
\<close>

definition compressMag :: "real \<Rightarrow> int option" where
  "compressMag v =
     (let compressedMag = dfloor (dadd (dmul (dadd (toDouble v) (Finite 2.0)) (Finite 10.0)) (Finite 0.5))
      in integerValue (dmin (dmax compressedMag (Finite 0)) (Finite 255)))"

definition trailerItems :: "state \<Rightarrow> int \<Rightarrow> StarInfo \<Rightarrow> out_item list" where
  "trailerItems s i star =
     (if i > highestStar s then [Int16 (ngcIcNum star), UInt8 (messierNum star)]
      else if highestBSC s > 0 \<and> i > highestBSC s then
        [UInt8 (map_option (\<lambda>h. h div 0x10000) (hipNum star)),
         UInt16 (Some (case hipNum star of None \<Rightarrow> 0 | Some h \<Rightarrow> h mod 0x10000))]
      else if i > highestFK5 s then [UInt16 (bscNum star)]
      else [])"

definition nameItems :: "StarInfo \<Rightarrow> out_item list" where
  "nameItems star =
     (case name star of
        None \<Rightarrow> [UInt8 (Some 0)]
      | Some nm \<Rightarrow> if nm = [] then [UInt8 (Some 0)] else [UInt8 (Some (int (length nm))), Bytes nm])"

definition recordItems :: "state \<Rightarrow> bool \<Rightarrow> int \<Rightarrow> StarInfo \<Rightarrow> out_item list" where
  "recordItems s doDoublePrecision i star =
     [UInt8 (flamsteed star), UInt8 (bayerRank star), UInt8 (subIndex star),
      UInt8 (constellation star)] @
     (if doDoublePrecision then [Double (RA star), Double (DE star)]
      else [Float (RA star), Float (DE star)]) @
     [Float (Some (case pmRA star of None \<Rightarrow> 0 | Some x \<Rightarrow> x)),
      Float (Some (case pmDE star of None \<Rightarrow> 0 | Some x \<Rightarrow> x)),
      UInt8 (case vmag star of None \<Rightarrow> None | Some v \<Rightarrow> compressMag v)] @
     trailerItems s i star @ nameItems star"

definition markerItems :: "state \<Rightarrow> int \<Rightarrow> out_item list" where
  "markerItems s i =
     (if i = highestFK5 s + 1 \<or> (highestBSC s > 0 \<and> i = highestBSC s + 1) \<or> i = highestStar s + 1
      then UInt8 (Some 0xFE) #
           (if i = highestStar s + 1 \<and> highestHIP s = 0 then [UInt8 (Some 0xFE)] else [])
      else [])"

text \<open>
  The file library (\<^verbatim>\<open>binary-file\<close>) hands a value to the method of the same name of a
  \<^verbatim>\<open>Buffer\<close>. The methods for integers throw a \<^verbatim>\<open>RangeError\<close> for a value below or above
  the range of the width, and take \<^verbatim>\<open>undefined\<close> and \<^verbatim>\<open>NaN\<close> (neither below nor above
  anything) as 0; the methods for floating-point numbers and for raw bytes take every value.
\<close>

fun accepted :: "out_item \<Rightarrow> bool" where
  "accepted (UInt8 (Some n)) = (0 \<le> n \<and> n \<le> 0xFF)"
| "accepted (UInt16 (Some n)) = (0 \<le> n \<and> n \<le> 0xFFFF)"
| "accepted (Int16 (Some n)) = (- 0x8000 \<le> n \<and> n \<le> 0x7FFF)"
| "accepted _ = True"

text \<open>The write calls of a list of values in turn, up to the first one that throws.\<close>

fun writeItems :: "out_item list \<Rightarrow> out_item list \<Rightarrow> error + out_item list" where
  "writeItems file [] = Inr file"
| "writeItems file (x # xs) =
     (if accepted x then writeItems (file @ [x]) xs else Inl RangeError)"

record writer =
  gapSize :: nat
  written :: "out_item list"
  missingFK5 :: int
  total :: int

text \<open>
  One round of the loop over the keys. A key without a record beyond the primary block
  makes \<^verbatim>\<open>star.vmag\<close> throw; a field of the record that does not fit its width makes
  its write call throw.
\<close>

definition writeKey :: "state \<Rightarrow> bool \<Rightarrow> writer \<Rightarrow> int \<Rightarrow> error + writer" where
  "writeKey s doDoublePrecision w i =
     (case starAt s i of
        None \<Rightarrow> if i \<le> highestFK5 s then Inr (w\<lparr>gapSize := gapSize w + 1\<rparr>) else Inl TypeError
      | Some star \<Rightarrow>
          (let w1 = (if gapSize w > 0
                     then w\<lparr>missingFK5 := missingFK5 w + int (gapSize w),
                            written := written w @ replicate (gapSize w) (UInt8 (Some 0xFF)),
                            gapSize := 0\<rparr>
                     else w)
           in case writeItems (written w1)
                     (markerItems s i @ recordItems s doDoublePrecision i star) of
                Inl e \<Rightarrow> Inl e
              | Inr file \<Rightarrow> Inr (w1\<lparr>written := file, total := total w1 + 1\<rparr>)))"

fun writeLoop :: "state \<Rightarrow> bool \<Rightarrow> writer \<Rightarrow> int list \<Rightarrow> error + writer" where
  "writeLoop s dp w [] = Inr w"
| "writeLoop s dp w (i # ks) =
     (case writeKey s dp w i of Inl e \<Rightarrow> Inl e | Inr w' \<Rightarrow> writeLoop s dp w' ks)"

definition lastKey :: "state \<Rightarrow> int" where
  "lastKey s = highestStar s + totalDSO s"

definition writeStarCatalog :: "state \<Rightarrow> bool \<Rightarrow> error + writer" where
  "writeStarCatalog s doDoublePrecision =
     writeLoop s doDoublePrecision
       \<lparr>gapSize = 0, written = (if doDoublePrecision then [UInt8 (Some 0xFD)] else []),
        missingFK5 = 0, total = 0\<rparr>
       [1..lastKey s]"

section \<open>The pipeline\<close>

record sources =
  crossIndex :: "fk5_line list"
  bscCatalog :: "bsc_line list"
  bscNotes :: "note_line list"
  hipparcosData :: "hip_line list"
  ngcNames :: "ngc_name_line list"
  ngcData :: "ngc_data_line list"

text \<open>The five stages, in the order of the main function, from the initial variables.\<close>

definition afterBrightStars :: "sources \<Rightarrow> state" where
  "afterBrightStars src =
     processYaleBrightStarCatalog (processCrossIndex initialState (crossIndex src)) (bscCatalog src)"

definition pipeline :: "sources \<Rightarrow> error + state" where
  "pipeline src =
     (case processYaleBrightStarCatalogNotes (afterBrightStars src) (bscNotes src) of
        Inl e \<Rightarrow> Inl e
      | Inr s3 \<Rightarrow>
          (case processHipparcosStarCatalog s3 (hipparcosData src) of
             Inl e \<Rightarrow> Inl e
           | Inr s4 \<Rightarrow> processNgcData (processNgcNames s4 (ngcNames src)) (ngcData src)))"

definition main :: "sources \<Rightarrow> error + writer" where
  "main src = (case pipeline src of Inl e \<Rightarrow> Inl e | Inr s \<Rightarrow> writeStarCatalog s False)"

section \<open>The specification's wording of rules that the code is compared with\<close>

text \<open>
  The name rule as the specification words it: a digit, or one lower-case letter,
  optionally one more lower-case letter, and a space at the start.
\<close>

fun spec_prefix :: "string \<Rightarrow> bool" where
  "spec_prefix (a # b # cs) =
     (isLower a \<and> (b = CHR '' '' \<or> (isLower b \<and> (case cs of [] \<Rightarrow> False | c # _ \<Rightarrow> c = CHR '' ''))))"
| "spec_prefix _ = False"

definition spec_rejectsName :: "string \<Rightarrow> bool" where
  "spec_rejectsName c = (list_ex isDigit c \<or> spec_prefix c)"

text \<open>
  The magnitude byte as the specification words it,
  \<^verbatim>\<open>clamp(round((mag + 2.0) * 10), 0, 255)\<close>: \<^verbatim>\<open>mag\<close> is the double of the magnitude, the
  sum and the product are those of the program's numbers, \<^verbatim>\<open>round\<close> gives the nearest integer of a number, the upper one of
  two that are as near (and keeps an infinity and \<^verbatim>\<open>NaN\<close>), and \<^verbatim>\<open>clamp\<close> brings a
  number into a range.
\<close>

fun spec_round :: "double \<Rightarrow> double" where
  "spec_round (Finite x) = Finite (of_int (round x))"
| "spec_round a = a"

definition spec_clamp :: "double \<Rightarrow> double \<Rightarrow> double \<Rightarrow> double" where
  "spec_clamp a lo hi = dmax lo (dmin hi a)"

definition spec_magnitudeByte :: "real \<Rightarrow> int option" where
  "spec_magnitudeByte mag =
     integerValue
       (spec_clamp (spec_round (dmul (dadd (toDouble mag) (Finite 2.0)) (Finite 10))) (Finite 0) (Finite 255))"

section \<open>Example inputs\<close>

text \<open>
  Inputs for the concrete instances below. The digits of a numeric column are not read
  from the text of a line (its value is a field of the line), so the texts show such
  columns as placeholders.

  A Bright Star Catalog line for star \<open>n\<close> with the name field \<open>nm\<close> (ten characters,
  columns 4-13), no FK5 number and the magnitude \<open>v\<close> in columns 102-106.
\<close>

definition example_bsc_line :: "int \<Rightarrow> string \<Rightarrow> real \<Rightarrow> bsc_line" where
  "example_bsc_line n nm v =
     \<lparr>bsc_text = ''   n'' @ nm @ replicate 88 (CHR '' '') @ '' v.vv'',
      bsc_bscNum = n, bsc_fk5 = 0, bsc_vmag = v, bsc_hd = 0, bsc_ra_hours = 5, bsc_ra_mins = 36,
      bsc_ra_secs = 12.8, bsc_de_degs = 1, bsc_de_mins = 12, bsc_de_secs = 7, bsc_pmRA = 0.001,
      bsc_pmDE = - 0.002, bsc_flamsteed = 0, bsc_subIndex = 0\<rparr>"

text \<open>A notes line for star \<open>n\<close> with the code \<^verbatim>\<open>1N:\<close> and a name.\<close>

definition example_note_line :: "int \<Rightarrow> note_line" where
  "example_note_line n = \<lparr>note_text = ''    n 1N:   ALNILAM; the name.'', note_bscNum = n\<rparr>"

definition no_sources :: sources where
  "no_sources = \<lparr>crossIndex = [], bscCatalog = [], bscNotes = [], hipparcosData = [],
     ngcNames = [], ngcData = []\<rparr>"

text \<open>
  A Hipparcos row for HD 48915 and a registry that holds one record, FK5 257, known under
  that HD number.
\<close>

definition example_hip_line :: hip_line where
  "example_hip_line =
     \<lparr>hip_text = ''| -546.01|-1223.08| 32349|-1.44|101.28854105|-16.71314306| 48915|'',
      hip_hipNum = 32349, hip_hdNum = 48915, hip_vmag = - 1.44, hip_ra = 101.28854105,
      hip_de = - 16.71314306, hip_pmRA = - 546.01, hip_pmDE = - 1223.08\<rparr>"

definition example_registry :: state where
  "example_registry =
     initialState\<lparr>heap := (\<lambda>_. None)(0 \<mapsto> emptyStar\<lparr>fk5Num := Some 257, vmag := Some (- 1.46)\<rparr>),
       nextRef := 1, fk5Index := (\<lambda>_. None)(257 \<mapsto> 0), hd2fk5 := (\<lambda>_. None)(48915 \<mapsto> 257),
       totalFK5 := 1, highestFK5 := 257, highestStar := 257\<rparr>"

text \<open>
  Lines of the NGC data file: a divider, and the entry of NGC 224 with the magnitude in
  the eighth field.
\<close>

definition example_divider :: ngc_data_line where
  "example_divider = \<lparr>nd_text = ''-----'', nd_vmag = 1000, nd_number = 0, nd_ra_hours = 0,
     nd_ra_mins = 0, nd_de_degs = 0, nd_de_mins = 0\<rparr>"

definition example_ngc_line :: ngc_data_line where
  "example_ngc_line = \<lparr>nd_text = '' 224|Gx |00 42.7 +41 16|s|And|178.||4.|'', nd_vmag = 4,
     nd_number = 224, nd_ra_hours = 0, nd_ra_mins = 42.7, nd_de_degs = 41, nd_de_mins = 16\<rparr>"

text \<open>
  A cross-index line for FK5 number \<open>n\<close>: shorter than 92 columns, so without HD number,
  designation and name.
\<close>

definition example_fk5_line :: "int \<Rightarrow> fk5_line" where
  "example_fk5_line n =
     \<lparr>fk5_text = ''  nn  00 08 23.265  +1.039 +29 05 25.58  -16.33'', fk5_fk5Num = n,
      fk5_ra_hours = 0, fk5_ra_mins = 8, fk5_ra_secs = 23.265, fk5_pmRA = 1.039,
      fk5_de_degs = 29, fk5_de_mins = 5, fk5_de_secs = 25.58, fk5_pmDE = - 16.33,
      fk5_vmag = 0, fk5_hd = 0, fk5_flamsteed = 0, fk5_subIndex = 0\<rparr>"

text \<open>
  Sources for a whole run: FK5 stars 41 and 43 (42 is missing), one bright star that is
  added, no Hipparcos row, and one NGC object.
\<close>

definition example_sources :: sources where
  "example_sources =
     \<lparr>crossIndex = [example_fk5_line 41, example_fk5_line 43],
      bscCatalog = [example_bsc_line 1 ''   Eps Ori'' 6.4],
      bscNotes = [],
      hipparcosData = [],
      ngcNames = [],
      ngcData = [example_divider, example_divider, example_ngc_line]\<rparr>"

text \<open>The registry at the end of the run on \<open>example_sources\<close>.\<close>

definition example_final :: state where
  "example_final =
     initialState\<lparr>
       heap := (\<lambda>_. None)
         (0 \<mapsto> fk5Star (example_fk5_line 41),
          1 \<mapsto> fk5Star (example_fk5_line 43),
          2 \<mapsto> (brightStar (example_bsc_line 1 ''   Eps Ori'' 6.4))
                 \<lparr>bscNum := Some 1, flamsteed := Some 0, bayerRank := Some 5,
                  subIndex := Some 0, constellation := Some 60\<rparr>,
          3 \<mapsto> ngcStar example_ngc_line 224 None ''00 42.7 +41 16'' ''and''),
       nextRef := 4,
       fk5Index := (\<lambda>_. None)(41 \<mapsto> 0, 43 \<mapsto> 1, 44 \<mapsto> 2, 45 \<mapsto> 3),
       bscIndex := (\<lambda>_. None)(1 \<mapsto> 2),
       bsc2fk5 := (\<lambda>_. None)(1 \<mapsto> 44),
       totalFK5 := 2, totalBSC := 1, totalDSO := 1, highestFK5 := 43, highestBSC := 44,
       highestStar := 44, addedStars := 1\<rparr>"

section \<open>Invariants of the registry\<close>

text \<open>
  What the stages keep true of the counters and of the keys of \<^verbatim>\<open>fk5Index\<close>: the keys
  beyond the primary block are exactly those up to the last key, the highest primary key
  has a record, and every address in the index holds an object.
\<close>

definition keysOk :: "state \<Rightarrow> bool" where
  "keysOk s \<longleftrightarrow>
     0 \<le> highestFK5 s \<and> 0 \<le> totalBSC s \<and> 0 \<le> totalHIP s \<and> 0 \<le> totalDSO s \<and>
     addedStars s = totalBSC s + totalHIP s \<and>
     highestStar s = highestFK5 s + addedStars s \<and>
     highestBSC s = (if totalBSC s = 0 then 0 else highestFK5 s + totalBSC s) \<and>
     highestHIP s = (if totalHIP s = 0 then 0 else highestStar s) \<and>
     (\<forall>k. highestFK5 s < k \<longrightarrow> (fk5Index s k \<noteq> None \<longleftrightarrow> k \<le> highestStar s + totalDSO s)) \<and>
     (0 < highestFK5 s \<longrightarrow> fk5Index s (highestFK5 s) \<noteq> None) \<and>
     (\<forall>k r. fk5Index s k = Some r \<longrightarrow> heap s r \<noteq> None) \<and>
     (\<forall>p. pleiades s = Some p \<longrightarrow> heap s p \<noteq> None)"

text \<open>The later state has the same primary block and the same records up to the last key.\<close>

definition grows :: "state \<Rightarrow> state \<Rightarrow> bool" where
  "grows s s' \<longleftrightarrow>
     highestFK5 s' = highestFK5 s \<and> lastKey s \<le> lastKey s' \<and>
     (\<forall>k \<le> lastKey s. fk5Index s' k = fk5Index s k)"

section \<open>The output, key by key\<close>

text \<open>
  What the loop of the writer emits for one key when the gap bytes are not deferred to the
  next record: one gap byte for a key without a record, else the markers and the record.
\<close>

definition keyItems :: "state \<Rightarrow> bool \<Rightarrow> int \<Rightarrow> out_item list" where
  "keyItems s doDoublePrecision i =
     (case starAt s i of
        None \<Rightarrow> [UInt8 (Some 0xFF)]
      | Some star \<Rightarrow> markerItems s i @ recordItems s doDoublePrecision i star)"

text \<open>Every value written for a key up to the last one fits the width it is written with.\<close>

definition writable :: "state \<Rightarrow> bool \<Rightarrow> bool" where
  "writable s doDoublePrecision =
     list_all (\<lambda>i. list_all accepted (keyItems s doDoublePrecision i)) [1..lastKey s]"

text \<open>
  The number of marker bytes before the record at key \<open>i\<close> as the specification words
  it, from the ends of the blocks: one after the end of the primary block, one after the
  end of the bright-star additions if there are any, one after the end of all stars, and a
  second one there if there are no Hipparcos additions.
\<close>

definition spec_markerCount :: "state \<Rightarrow> int \<Rightarrow> nat" where
  "spec_markerCount s i =
     (let primaryEnd = highestFK5 s;
          brightEnd = primaryEnd + totalBSC s;
          stellarEnd = brightEnd + totalHIP s
      in if i = stellarEnd + 1 \<and> totalHIP s = 0 then 2
         else if i = primaryEnd + 1 \<or> (0 < totalBSC s \<and> i = brightEnd + 1) \<or> i = stellarEnd + 1
         then 1 else 0)"

text \<open>
  Every record of the store has a magnitude: the property that makes the magnitude byte
  of every written record a number.
\<close>

definition magnitudesKnown :: "state \<Rightarrow> bool" where
  "magnitudesKnown s \<longleftrightarrow> (\<forall>r star. heap s r = Some star \<longrightarrow> vmag star \<noteq> None)"

section \<open>Verified properties\<close>

subsection \<open>Character classes\<close>

lemmas char_class_defs =
  isSpace_def isDigit_def isLower_def isUpper_def isLowerNotL_def lowerLetters_def
  upperLetters_def lowerChar_def upperChar_def

subsection \<open>Rounding to double precision\<close>

text \<open>Rules for the evaluation of the operations on given numbers.\<close>

lemma halvings_numeral:
  "halvings (numeral n) x = (if x < 2 then 0 else Suc (halvings (pred_numeral n) (x / 2)))"
  by (simp add: numeral_eq_Suc)

lemma doublings_numeral:
  "doublings (numeral n) x = (if 1 \<le> x then 0 else Suc (doublings (pred_numeral n) (2 * x)))"
  by (simp add: numeral_eq_Suc)

lemmas double_eval = halvings_numeral doublings_numeral exponent_def ulp_def roundTiesToEven_def nearest_def toDouble_def Let_def

lemma halvings_bounds:
  "1 \<le> x \<Longrightarrow> x < 2 ^ k \<Longrightarrow> 2 ^ halvings k x \<le> x \<and> x < 2 * 2 ^ halvings k x"
proof (induction k arbitrary: x)
  case 0
  then show ?case by simp
next
  case (Suc k)
  show ?case
  proof (cases "x < 2")
    case True
    with Suc.prems show ?thesis by simp
  next
    case False
    with Suc.prems have "1 \<le> x / 2" "x / 2 < 2 ^ k" by simp_all
    from Suc.IH [OF this] False show ?thesis by simp
  qed
qed

lemma doublings_le: "doublings k x \<le> k"
  by (induction k arbitrary: x) simp_all

lemma doublings_bounds:
  "0 < x \<Longrightarrow> x < 1 \<Longrightarrow> 1 \<le> x * 2 ^ k \<Longrightarrow>
   1 \<le> x * 2 ^ doublings k x \<and> x * 2 ^ doublings k x < 2"
proof (induction k arbitrary: x)
  case 0
  then show ?case by simp
next
  case (Suc k)
  show ?case
  proof (cases "1 \<le> 2 * x")
    case True
    with Suc.prems show ?thesis by (cases k) simp_all
  next
    case False
    with Suc.prems have "0 < 2 * x" "2 * x < 1" "1 \<le> (2 * x) * 2 ^ k"
      by (simp_all add: mult.assoc)
    from Suc.IH [OF this] Suc.prems show ?thesis by (simp add: mult.assoc)
  qed
qed

lemma doublings_small:
  "0 \<le> x \<Longrightarrow> x * 2 ^ k < 1 \<Longrightarrow> doublings k x = k"
proof (induction k arbitrary: x)
  case 0
  then show ?case by simp
next
  case (Suc k)
  have "(1::real) \<le> 2 ^ Suc k" by (rule one_le_power) simp
  from mult_left_mono [OF this Suc.prems(1)] have "x \<le> x * 2 ^ Suc k" by simp
  with Suc.prems have "x < 1" by simp
  moreover from Suc.prems have "doublings k (2 * x) = k"
    by (intro Suc.IH) (simp_all add: mult.assoc mult.commute)
  ultimately show ?case by simp
qed

lemma powi_nat: "(2::real) powi (int n) = 2 ^ n"
  by simp

lemma powi_neg_nat: "(2::real) powi (- int n) = 1 / 2 ^ n"
  by (simp add: power_int_minus_divide)

lemma powi_pos [simp]: "0 < (2::real) powi e"
  by (simp add: power_int_def)

lemma powi_mono: "a \<le> b \<Longrightarrow> (2::real) powi a \<le> 2 powi b"
  by (rule power_int_increasing) simp_all

lemma powi_strict_mono: "a < b \<Longrightarrow> (2::real) powi a < 2 powi b"
  by (rule power_int_strict_increasing) simp_all

lemma powi_Suc: "(2::real) powi (e + 1) = 2 * 2 powi e"
  by (simp add: power_int_add)

text \<open>The binade of a number.\<close>

lemma exponent_ge: "- 1022 \<le> exponent x"
  using doublings_le [of 1022 "\<bar>x\<bar>"] by (simp add: exponent_def)

lemma exponent_upper:
  assumes "\<bar>x\<bar> < 2 ^ 1100"
  shows "\<bar>x\<bar> < 2 powi (exponent x + 1)"
proof (cases "1 \<le> \<bar>x\<bar>")
  case True
  from halvings_bounds [OF True assms] True show ?thesis
    by (simp add: exponent_def powi_Suc)
next
  case False
  show ?thesis
  proof (cases "1 \<le> \<bar>x\<bar> * 2 ^ 1022")
    case True
    with False have "0 < \<bar>x\<bar>" "\<bar>x\<bar> < 1" by auto
    from doublings_bounds [OF this True]
    have "\<bar>x\<bar> * 2 ^ doublings 1022 \<bar>x\<bar> < 2" by simp
    then have "\<bar>x\<bar> < 2 * (1 / 2 ^ doublings 1022 \<bar>x\<bar>)"
      by (simp add: field_simps)
    moreover have "(2::real) powi (exponent x + 1) = 2 * (1 / 2 ^ doublings 1022 \<bar>x\<bar>)"
      unfolding powi_Suc using False by (simp add: exponent_def power_int_minus_divide)
    ultimately show ?thesis by simp
  next
    case small: False
    then have d: "doublings 1022 \<bar>x\<bar> = 1022"
      by (intro doublings_small) simp_all
    from small have "\<bar>x\<bar> < 1 / 2 ^ 1022" by (simp add: field_simps)
    also have "\<dots> < 2 * (1 / 2 ^ 1022)" by simp
    finally have "\<bar>x\<bar> < 2 * (1 / 2 ^ 1022)" .
    moreover have "(2::real) powi (exponent x + 1) = 2 * (1 / 2 ^ 1022)"
      unfolding powi_Suc using False d by (simp add: exponent_def power_int_minus_divide)
    ultimately show ?thesis by simp
  qed
qed

lemma exponent_lower:
  assumes "\<bar>x\<bar> < 2 ^ 1100" and "- 1022 < exponent x"
  shows "2 powi (exponent x) \<le> \<bar>x\<bar>"
proof (cases "1 \<le> \<bar>x\<bar>")
  case True
  from halvings_bounds [OF True assms(1)] True show ?thesis
    by (simp add: exponent_def)
next
  case False
  have "1 \<le> \<bar>x\<bar> * 2 ^ 1022"
  proof (rule ccontr)
    assume "\<not> 1 \<le> \<bar>x\<bar> * 2 ^ 1022"
    then have "doublings 1022 \<bar>x\<bar> = 1022"
      by (intro doublings_small) simp_all
    with False assms(2) show False by (simp add: exponent_def)
  qed
  moreover from this False have "0 < \<bar>x\<bar>" "\<bar>x\<bar> < 1" by auto
  ultimately have "1 \<le> \<bar>x\<bar> * 2 ^ doublings 1022 \<bar>x\<bar>"
    using doublings_bounds by blast
  then have "1 / 2 ^ doublings 1022 \<bar>x\<bar> \<le> \<bar>x\<bar>"
    by (simp add: field_simps)
  with False show ?thesis
    by (simp add: exponent_def power_int_minus_divide)
qed

lemma exponent_unique:
  assumes "2 powi k \<le> \<bar>x\<bar>" and "\<bar>x\<bar> < 2 powi (k + 1)" and "- 1022 \<le> k" and "\<bar>x\<bar> < 2 ^ 1100"
  shows "exponent x = k"
proof (rule ccontr)
  assume ne: "exponent x \<noteq> k"
  show False
  proof (cases "exponent x < k")
    case True
    then have "2 powi (exponent x + 1) \<le> (2::real) powi k" by (intro powi_mono) simp
    with exponent_upper [OF assms(4)] assms(1) show False by simp
  next
    case False
    with ne have gt: "k < exponent x" by simp
    with assms(3) have "- 1022 < exponent x" by simp
    from exponent_lower [OF assms(4) this] assms(2)
    have "2 powi (exponent x) < (2::real) powi (k + 1)" by simp
    moreover from gt have "2 powi (k + 1) \<le> (2::real) powi (exponent x)"
      by (intro powi_mono) simp
    ultimately show False by simp
  qed
qed

lemma exponent_subnormal:
  assumes "\<bar>x\<bar> < 2 powi (- 1022)"
  shows "exponent x = - 1022"
proof (rule ccontr)
  assume "exponent x \<noteq> - 1022"
  with exponent_ge [of x] have gt: "- 1022 < exponent x" by simp
  have "\<bar>x\<bar> < 2 ^ 1100"
  proof -
    have "(2::real) powi (- 1022) \<le> 2 powi 1100" by (intro powi_mono) simp
    with assms show ?thesis by simp
  qed
  from exponent_lower [OF this gt] assms
  have "2 powi (exponent x) < (2::real) powi (- 1022)" by simp
  moreover from gt have "2 powi (- 1022) \<le> (2::real) powi (exponent x)"
    by (intro powi_mono) simp
  ultimately show False by simp
qed

lemma exponent_mono:
  assumes "\<bar>x\<bar> \<le> \<bar>y\<bar>" and "\<bar>y\<bar> < 2 ^ 1100"
  shows "exponent x \<le> exponent y"
proof (rule ccontr)
  assume "\<not> exponent x \<le> exponent y"
  then have gt: "exponent y < exponent x" by simp
  with exponent_ge [of y] have "- 1022 < exponent x" by simp
  moreover from assms have "\<bar>x\<bar> < 2 ^ 1100" by simp
  ultimately have "2 powi (exponent x) \<le> \<bar>x\<bar>" by (intro exponent_lower)
  moreover from gt have "2 powi (exponent y + 1) \<le> (2::real) powi (exponent x)"
    by (intro powi_mono) simp
  ultimately show False using exponent_upper [OF assms(2)] assms(1) by simp
qed

lemma exponent_abs [simp]: "exponent (- x) = exponent x"
  by (simp add: exponent_def)

text \<open>
  Rounding keeps a number between the multiples of the unit that it lies between, and
  moves it by at most half a unit.
\<close>

lemma ulp_pos [simp]: "0 < ulp x"
  by (simp add: ulp_def)

lemma ulp_nonneg [simp]: "0 \<le> ulp x"
  by (simp add: ulp_def less_imp_le)

lemma rne_of_int [simp]: "roundTiesToEven (of_int m) = m"
  by (simp add: roundTiesToEven_def)

lemma rne_le: "q \<le> of_int m \<Longrightarrow> roundTiesToEven q \<le> m"
proof -
  assume a: "q \<le> of_int m"
  then have n: "\<lfloor>q\<rfloor> \<le> m" by (simp add: floor_le_iff)
  show ?thesis
  proof (cases "\<lfloor>q\<rfloor> = m")
    case True
    with a have "q = of_int \<lfloor>q\<rfloor>" using of_int_floor_le [of q] by simp
    then have "q - of_int \<lfloor>q\<rfloor> = 0" by simp
    then show ?thesis using True by (simp add: roundTiesToEven_def Let_def)
  next
    case False
    with n have "\<lfloor>q\<rfloor> + 1 \<le> m" by simp
    then show ?thesis by (simp add: roundTiesToEven_def Let_def)
  qed
qed

lemma rne_ge: "of_int m \<le> q \<Longrightarrow> m \<le> roundTiesToEven q"
proof -
  assume "of_int m \<le> q"
  then have "m \<le> \<lfloor>q\<rfloor>" by (simp add: le_floor_iff)
  then show ?thesis by (simp add: roundTiesToEven_def Let_def)
qed

lemma rne_error: "\<bar>of_int (roundTiesToEven q) - q\<bar> \<le> 1 / 2"
proof -
  have "of_int \<lfloor>q\<rfloor> \<le> q" "q < of_int \<lfloor>q\<rfloor> + 1" by linarith+
  then show ?thesis
    by (auto simp add: roundTiesToEven_def Let_def)
qed

lemma nearest_grid_le:
  assumes "y \<le> of_int m * ulp y"
  shows "nearest y \<le> of_int m * ulp y"
proof -
  from assms have "y / ulp y \<le> of_int m" by (simp add: pos_divide_le_eq)
  from rne_le [OF this] have "(of_int (roundTiesToEven (y / ulp y)) :: real) \<le> of_int m"
    by simp
  then show ?thesis by (simp add: nearest_def)
qed

lemma nearest_grid_ge:
  assumes "of_int m * ulp y \<le> y"
  shows "of_int m * ulp y \<le> nearest y"
proof -
  from assms have "of_int m \<le> y / ulp y" by (simp add: pos_le_divide_eq)
  from rne_ge [OF this] have "(of_int m :: real) \<le> of_int (roundTiesToEven (y / ulp y))"
    by simp
  then show ?thesis by (simp add: nearest_def)
qed

lemma nearest_error: "\<bar>nearest y - y\<bar> \<le> ulp y / 2"
proof -
  have "ulp y \<noteq> 0" by (simp add: ulp_def)
  then have "nearest y - y = (of_int (roundTiesToEven (y / ulp y)) - y / ulp y) * ulp y"
    by (simp add: nearest_def algebra_simps)
  then have "\<bar>nearest y - y\<bar> = \<bar>of_int (roundTiesToEven (y / ulp y)) - y / ulp y\<bar> * ulp y"
    using ulp_pos [of y] by (simp add: abs_mult abs_of_pos del: ulp_pos)
  also have "\<dots> \<le> (1 / 2) * ulp y"
    by (intro mult_right_mono rne_error) simp
  finally show ?thesis by simp
qed

lemma nearest_fix:
  assumes "y = of_int m * ulp y"
  shows "nearest y = y"
proof -
  from assms have "y / ulp y = of_int m"
    by (metis nonzero_mult_div_cancel_right ulp_pos less_irrefl)
  then show ?thesis using assms by (simp add: nearest_def)
qed

lemma nearest_nonpos: "y \<le> 0 \<Longrightarrow> nearest y \<le> 0"
  using nearest_grid_le [of y 0] by simp

lemma nearest_nonneg: "0 \<le> y \<Longrightarrow> 0 \<le> nearest y"
  using nearest_grid_ge [of 0 y] by simp

text \<open>The ends of the binade of a number are on its grid.\<close>

lemma binade_low: "2 powi (exponent y) = of_int (2 ^ 52) * ulp y"
proof -
  have "(2::real) powi (exponent y) = 2 powi (52 + (exponent y - 52))" by simp
  also have "\<dots> = 2 powi 52 * 2 powi (exponent y - 52)"
    by (subst power_int_add) simp_all
  finally show ?thesis by (simp add: ulp_def)
qed

lemma binade_high: "2 powi (exponent y + 1) = of_int (2 ^ 53) * ulp y"
proof -
  have "(2::real) powi (exponent y + 1) = 2 powi (53 + (exponent y - 52))"
    by (rule arg_cong [where f = "\<lambda>e. 2 powi e"]) simp
  also have "\<dots> = 2 powi 53 * 2 powi (exponent y - 52)"
    by (subst power_int_add) simp_all
  finally show ?thesis by (simp add: ulp_def)
qed

lemma nearest_le:
  assumes "0 < d" and "d < 2 ^ 1100" and "d = of_int m * ulp d" and "y \<le> d"
  shows "nearest y \<le> d"
proof (cases "y \<le> 0")
  case True
  from nearest_nonpos [OF this] assms(1) show ?thesis by simp
next
  case False
  then have pos: "0 < y" by simp
  with assms have ylt: "\<bar>y\<bar> < 2 ^ 1100" and le: "\<bar>y\<bar> \<le> \<bar>d\<bar>" and dlt: "\<bar>d\<bar> < 2 ^ 1100" by simp_all
  from exponent_mono [OF le dlt] have e: "exponent y \<le> exponent d" .
  show ?thesis
  proof (cases "exponent y = exponent d")
    case True
    then have "ulp y = ulp d" by (simp add: ulp_def)
    with assms(3,4) nearest_grid_le [of y m] show ?thesis by simp
  next
    case False
    with e have lt: "exponent y < exponent d" by simp
    from exponent_upper [OF ylt] pos have "y \<le> of_int (2 ^ 53) * ulp y"
      by (simp add: binade_high)
    from nearest_grid_le [OF this] have "nearest y \<le> 2 powi (exponent y + 1)"
      by (simp add: binade_high)
    also from lt have "\<dots> \<le> 2 powi (exponent d)" by (intro powi_mono) simp
    also have "\<dots> \<le> \<bar>d\<bar>"
      using lt exponent_ge [of y] by (intro exponent_lower [OF dlt]) simp
    finally show ?thesis using assms(1) by simp
  qed
qed

lemma nearest_ge:
  assumes "0 < d" and "d = of_int m * ulp d" and "d \<le> y" and "y < 2 ^ 1100"
  shows "d \<le> nearest y"
proof -
  from assms have ylt: "\<bar>y\<bar> < 2 ^ 1100" and le: "\<bar>d\<bar> \<le> \<bar>y\<bar>" and dlt: "\<bar>d\<bar> < 2 ^ 1100" by simp_all
  from exponent_mono [OF le ylt] have e: "exponent d \<le> exponent y" .
  show ?thesis
  proof (cases "exponent y = exponent d")
    case True
    then have "ulp y = ulp d" by (simp add: ulp_def)
    with assms(2,3) nearest_grid_ge [of m y] show ?thesis by simp
  next
    case False
    with e have lt: "exponent d < exponent y" by simp
    have "d \<le> 2 powi (exponent d + 1)"
      using exponent_upper [OF dlt] assms(1) by simp
    also from lt have "\<dots> \<le> 2 powi (exponent y)" by (intro powi_mono) simp
    finally have 1: "d \<le> 2 powi (exponent y)" .
    have "2 powi (exponent y) \<le> \<bar>y\<bar>"
      using lt exponent_ge [of d] by (intro exponent_lower [OF ylt]) simp
    with assms have "of_int (2 ^ 52) * ulp y \<le> y" by (simp add: binade_low)
    from nearest_grid_ge [OF this] 1 show ?thesis by (simp add: binade_low)
  qed
qed

lemma toDouble_Finite:
  assumes "toDouble y = Finite x"
  shows "x = nearest y" and "x < 2 ^ 1024" and "- (2 ^ 1024) < x"
  using assms by (auto simp add: toDouble_def Let_def split: if_splits)

lemma isDouble_representable:
  assumes "isDouble v"
  shows "\<exists>m. v = of_int m * ulp v" and "\<bar>v\<bar> < 2 ^ 1024"
proof -
  from assms have t: "toDouble v = Finite v" by (simp add: isDouble_def)
  from toDouble_Finite(1) [OF t] have "v = of_int (roundTiesToEven (v / ulp v)) * ulp v"
    by (simp add: nearest_def)
  then show "\<exists>m. v = of_int m * ulp v" by blast
  from toDouble_Finite(2,3) [OF t] show "\<bar>v\<bar> < 2 ^ 1024" by simp
qed

lemma big_powers: "(2::real) ^ 1024 < 2 ^ 1099" "(2::real) ^ 1099 < 2 ^ 1100"
  "(2::real) ^ 1024 < 2 ^ 1100"
  by simp_all

lemma powi_52: "(2::real) powi a = of_int (2 ^ 52) * 2 powi (a - 52)"
proof -
  have "(2::real) powi a = 2 powi (52 + (a - 52))" by simp
  also have "\<dots> = 2 powi 52 * 2 powi (a - 52)"
    by (subst power_int_add) simp_all
  finally show ?thesis by simp
qed

lemma nearest_upper:
  assumes "0 < y" and "y < 2 ^ 1100"
  shows "nearest y \<le> 2 powi (exponent y + 1)"
proof -
  from exponent_upper [of y] assms have "y \<le> of_int (2 ^ 53) * ulp y"
    by (simp add: binade_high)
  from nearest_grid_le [OF this] show ?thesis by (simp add: binade_high)
qed

lemma nearest_lower:
  assumes "0 < y" and "y < 2 ^ 1100" and "- 1022 < exponent y"
  shows "2 powi (exponent y) \<le> nearest y"
proof -
  from exponent_lower [of y] assms have "of_int (2 ^ 52) * ulp y \<le> y"
    by (simp add: binade_low)
  from nearest_grid_ge [OF this] show ?thesis by (simp add: binade_low)
qed

lemma nearest_representable:
  assumes "0 < y" and "y < 2 ^ 1099"
  shows "\<exists>m. nearest y = of_int m * ulp (nearest y)"
proof -
  let ?x = "nearest y" and ?e = "exponent y"
  from assms have y: "y < 2 ^ 1100" using big_powers(2) by simp
  have x0: "0 \<le> ?x" using assms(1) by (intro nearest_nonneg) simp
  have up: "?x \<le> 2 powi (?e + 1)" by (rule nearest_upper [OF assms(1) y])
  have e: "?e < 1099"
  proof (rule ccontr)
    assume "\<not> ?e < 1099"
    then have "1099 \<le> ?e" "- 1022 < ?e" by simp_all
    from exponent_lower [of y, OF _ this(2)] y assms(1) have "2 powi ?e \<le> y" by simp
    moreover from \<open>1099 \<le> ?e\<close> have "(2::real) powi 1099 \<le> 2 powi ?e" by (rule powi_mono)
    ultimately show False using assms(2) by simp
  qed
  have grid: "?x = of_int (roundTiesToEven (y / ulp y)) * ulp y"
    by (simp add: nearest_def)
  show ?thesis
  proof (cases "?x = 2 powi (?e + 1)")
    case True
    have "(2::real) powi (?e + 1) \<le> 2 powi 1099" using e by (intro powi_mono) simp
    then have lt: "\<bar>?x\<bar> < 2 ^ 1100" using True big_powers(2) by simp
    have "exponent ?x = ?e + 1"
      using True exponent_ge [of y] lt
      by (intro exponent_unique) (simp_all add: powi_strict_mono)
    then have "ulp ?x = 2 powi (?e + 1 - 52)" by (simp add: ulp_def)
    moreover have "(2::real) powi (?e + 1) = of_int (2 ^ 52) * 2 powi (?e + 1 - 52)"
      by (rule powi_52)
    ultimately show ?thesis using True by metis
  next
    case False
    with up have lt1: "?x < 2 powi (?e + 1)" by simp
    have "(2::real) powi (?e + 1) \<le> 2 powi 1099" using e by (intro powi_mono) simp
    with lt1 x0 have lt: "\<bar>?x\<bar> < 2 ^ 1100" using big_powers(2) by simp
    have "exponent ?x = ?e"
    proof (cases "- 1022 < ?e")
      case True
      from nearest_lower [OF assms(1) y True] lt1 x0 lt exponent_ge [of y]
      show ?thesis by (intro exponent_unique) simp_all
    next
      case False
      with exponent_ge [of y] have e2: "?e = - 1022" by simp
      show ?thesis
      proof (cases "2 powi (- 1022) \<le> ?x")
        case True
        with lt1 x0 lt e2 show ?thesis by (intro exponent_unique) simp_all
      next
        case False
        with x0 have "\<bar>?x\<bar> < 2 powi (- 1022)" by simp
        from exponent_subnormal [OF this] e2 show ?thesis by simp
      qed
    qed
    then have "ulp ?x = ulp y" by (simp add: ulp_def)
    with grid show ?thesis by metis
  qed
qed

text \<open>
  The step \<^verbatim>\<open>floor(x + 0.5)\<close> for a double \<open>x\<close>: the sum is rounded, but not across an
  integer, unless \<open>x\<close> is the double just below one half.
\<close>

lemma exponent_values:
  "exponent 256 = 8" "exponent 1 = 0" "exponent (1/2) = - 1" "exponent (1/4) = - 2"
  "exponent (1/32) = - 5" "exponent (1/16) = - 4"
  by (simp_all add: double_eval)

lemma powi_neg_numeral: "(2::real) powi (- numeral k) = 1 / 2 ^ numeral k"
  by (simp add: power_int_minus_divide)

lemma ulp_small:
  assumes "exponent y \<le> 52"
  shows "ulp y = 1 / 2 ^ nat (52 - exponent y)"
proof -
  have "exponent y - 52 = - int (nat (52 - exponent y))" using assms by simp
  then show ?thesis unfolding ulp_def by (simp only: powi_neg_nat)
qed

lemma grid_of_int:
  assumes "exponent y \<le> 52"
  shows "of_int n = of_int (n * 2 ^ nat (52 - exponent y)) * ulp y"
  by (simp add: ulp_small [OF assms])

lemma grid_of_half:
  assumes "exponent y \<le> 51"
  shows "of_int n + 1 / 2 = of_int ((2 * n + 1) * 2 ^ nat (51 - exponent y)) * ulp y"
proof -
  from assms have "nat (52 - exponent y) = Suc (nat (51 - exponent y))" by simp
  moreover from assms have "exponent y \<le> 52" by simp
  ultimately show ?thesis by (simp add: ulp_small field_simps)
qed

lemma exponent_below_256:
  assumes "\<bar>y\<bar> < 256"
  shows "exponent y \<le> 8"
  using exponent_mono [of y 256] assms by (simp add: exponent_values)

lemma half_lower:
  assumes "0 \<le> y" and "y < 256" and "of_int n \<le> y"
  shows "of_int n \<le> nearest y"
proof -
  from assms(1,2) have "exponent y \<le> 52" using exponent_below_256 [of y] by simp
  from grid_of_int [OF this, of n] obtain N where g: "real_of_int n = of_int N * ulp y"
    by blast
  from assms(3) have "of_int N * ulp y \<le> y" unfolding g .
  from nearest_grid_ge [OF this] show ?thesis unfolding g .
qed

lemma real_int_less:
  assumes "of_int m * u < of_int k * u" and "0 < (u::real)"
  shows "of_int (m + 1) * u \<le> of_int k * u"
proof -
  from assms have "real_of_int m < of_int k" by (simp add: mult_less_cancel_right)
  then have "m + 1 \<le> k" by simp
  then have "real_of_int (m + 1) \<le> of_int k" by (simp only: of_int_le_iff)
  with assms(2) show ?thesis by (simp add: mult_le_cancel_right)
qed

lemma grid_step:
  assumes "x = of_int m * u" and "t = of_int k * u" and "x < t" and "0 < (u::real)"
  shows "x + u \<le> t"
proof -
  from assms(3) have "of_int m * u < of_int k * u" unfolding assms(1,2) .
  from real_int_less [OF this assms(4)] have "of_int m * u + u \<le> of_int k * u"
    by (simp add: algebra_simps)
  then show ?thesis unfolding assms(1,2) .
qed

lemma grid_step2:
  assumes "x = of_int m * u" and "t = of_int k * u" and "x < t" and "0 < (u::real)"
    and "x \<noteq> t - u"
  shows "x + 2 * u \<le> t"
proof -
  have 1: "x + u = of_int (m + 1) * u" unfolding assms(1) by (simp add: algebra_simps)
  from grid_step [OF assms(1-4)] assms(5) have "x + u < t" by simp
  from grid_step [OF 1 assms(2) this assms(4)] show ?thesis by simp
qed

lemma half_upper:
  assumes rep0: "0 < x \<Longrightarrow> \<exists>m. x = of_int m * ulp x"
    and special: "x \<noteq> 1 / 2 - 1 / 2 ^ 54"
    and n: "n = \<lfloor>x + 1 / 2\<rfloor>" and n0: "0 \<le> n" and n255: "n \<le> 255"
  shows "nearest (x + 1 / 2) < of_int n + 1"
proof -
  let ?y = "x + 1 / 2" and ?u = "ulp (x + 1 / 2)"
  from n have ny: "of_int n \<le> ?y" and yn: "?y < of_int n + 1" by linarith+
  from n0 ny have y0: "0 \<le> ?y" by linarith
  from n255 yn have y256: "?y < 256" by linarith
  from y0 y256 have ey: "exponent ?y \<le> 8" using exponent_below_256 [of ?y] by simp
  have ylt: "\<bar>?y\<bar> < 2 ^ 1100"
  proof -
    have "(256::real) < 2 ^ 1100" by simp
    with y0 y256 show ?thesis by linarith
  qed
  have u_small: "?u \<le> 1 / 2"
  proof -
    from ey have "exponent ?y - 52 \<le> - 1" by simp
    then have "(2::real) powi (exponent ?y - 52) \<le> 2 powi (- 1)" by (rule powi_mono)
    then show ?thesis by (simp add: ulp_def)
  qed
  have err: "nearest ?y \<le> ?y + ?u / 2"
    using nearest_error [of ?y] by linarith
  have "?y + ?u / 2 < of_int n + 1"
  proof (cases "x < of_int n")
    case True
    with u_small show ?thesis by linarith
  next
    case False
    then have nx: "of_int n \<le> x" by simp
    from yn have xn: "x < of_int n + 1 / 2" by linarith
    show ?thesis
    proof (cases "1 \<le> n")
      case True
      have xlt: "\<bar>x\<bar> < 2 ^ 1100" using ylt nx True by linarith
      have xy: "\<bar>x\<bar> \<le> \<bar>?y\<bar>" using nx True by linarith
      have "exponent x = exponent ?y"
      proof (rule ccontr)
        assume ne: "exponent x \<noteq> exponent ?y"
        with exponent_mono [OF xy ylt] have lt: "exponent x < exponent ?y" by simp
        have "1 \<le> \<bar>?y\<bar>" using nx True by linarith
        then have "\<bar>1::real\<bar> \<le> \<bar>?y\<bar>" by simp
        from exponent_mono [OF this ylt] have e0: "0 \<le> exponent ?y"
          by (simp add: exponent_values)
        have "x < 2 powi (exponent x + 1)"
          using exponent_upper [OF xlt] by linarith
        also from lt have "\<dots> \<le> 2 powi (exponent ?y)" by (intro powi_mono) simp
        finally have 1: "x < 2 powi (exponent ?y)" .
        have "2 powi (exponent ?y) \<le> \<bar>?y\<bar>"
          using lt exponent_ge [of x] by (intro exponent_lower [OF ylt]) simp
        with y0 have 2: "2 powi (exponent ?y) \<le> ?y" by simp
        from e0 have "(2::real) powi (exponent ?y) = of_int (2 ^ nat (exponent ?y))"
          by (simp add: power_int_def)
        with 2 have "of_int (2 ^ nat (exponent ?y)) \<le> ?y" by simp
        then have "2 ^ nat (exponent ?y) \<le> \<lfloor>?y\<rfloor>" by (simp only: le_floor_iff)
        with n have "real_of_int (2 ^ nat (exponent ?y)) \<le> of_int n" by (simp only: of_int_le_iff)
        with nx 1 \<open>(2::real) powi (exponent ?y) = of_int (2 ^ nat (exponent ?y))\<close>
        show False by linarith
      qed
      then have "ulp x = ?u" by (simp add: ulp_def)
      moreover from nx True have "0 < x" by linarith
      from rep0 [OF this] obtain m where "x = of_int m * ulp x" by blast
      ultimately have xm: "x = of_int m * ?u" by (simp only:)
      from ey have "exponent ?y \<le> 51" by simp
      from grid_of_half [OF this, of n] obtain K where K: "of_int n + 1 / 2 = of_int K * ?u"
        by blast
      have "0 < ?u" by simp
      from grid_step [OF xm K xn this] have "x + ?u \<le> of_int n + 1 / 2" .
      with \<open>0 < ?u\<close> show ?thesis by linarith
    next
      case False
      with n0 have n_0: "n = 0" by simp
      with nx xn have x0: "0 \<le> x" and x12: "x < 1 / 2" by simp_all
      have "exponent ?y = - 1"
        using x0 x12 by (intro exponent_unique) (simp_all add: powi_neg_numeral)
      then have u: "?u = 1 / 2 ^ 53" by (simp add: ulp_def powi_neg_numeral)
      have "x < 1 / 2 - 1 / 2 ^ 54"
      proof (cases "x < 1 / 4")
        case True
        then show ?thesis by simp
      next
        case False
        have "exponent x = - 2"
          using False x12 by (intro exponent_unique) (simp_all add: powi_neg_numeral)
        then have ux: "ulp x = 1 / 2 ^ 54" by (simp add: ulp_def powi_neg_numeral)
        moreover from False have "0 < x" by simp
        from rep0 [OF this] obtain m where "x = of_int m * ulp x" by blast
        ultimately have xm: "x = of_int m * (1 / 2 ^ 54)" by (simp only:)
        have h: "(1::real) / 2 = of_int (2 ^ 53) * (1 / 2 ^ 54)" by simp
        have upos: "(0::real) < 1 / 2 ^ 54" by simp
        from special have "x \<noteq> 1 / 2 - 1 / 2 ^ 54" .
        from grid_step2 [OF xm h x12 upos this] show ?thesis by simp
      qed
      with u n_0 show ?thesis by simp
    qed
  qed
  with err show ?thesis by linarith
qed

text \<open>
  The double just below one half is not ten times the sum of a double and 2: near
  \<open>-2\<close> the doubles are the multiples of \<open>2 powi (-52)\<close>, and no multiple of 80 lies in the
  range that is rounded to that double.
\<close>

lemma ulp_values:
  "ulp (1/4) = 1 / 2 ^ 54" "ulp (1/2) = 1 / 2 ^ 53" "ulp (1/32) = 1 / 2 ^ 57"
  "ulp (1/16) = 1 / 2 ^ 56"
  by (simp_all add: ulp_def exponent_values powi_neg_numeral)

lemma grid_constants:
  "(1::real) / 4 = of_int (2 ^ 52) * ulp (1/4)" "(1::real) / 2 = of_int (2 ^ 52) * ulp (1/2)"
  "(1::real) / 32 = of_int (2 ^ 52) * ulp (1/32)" "(1::real) / 16 = of_int (2 ^ 52) * ulp (1/16)"
  by (simp_all add: ulp_values)

lemma no_multiple_of_80:
  "\<not> (2 ^ 54 - 3 \<le> 80 * (N::int) \<and> 80 * N \<le> 2 ^ 54 - 1)"
proof -
  have "N \<le> 225179981368524 \<or> 225179981368525 \<le> N" by linarith
  then show ?thesis by auto
qed

lemma product_not_special:
  assumes v: "isDouble v" and a: "toDouble (v + 2) = Finite a"
    and x: "toDouble (a * 10) = Finite x"
  shows "x \<noteq> 1 / 2 - 1 / 2 ^ 54"
proof
  assume t: "x = 1 / 2 - 1 / 2 ^ 54"
  let ?y = "a * 10" and ?w = "v + 2"
  note xa = toDouble_Finite [OF x] and av = toDouble_Finite [OF a]
  note vd = isDouble_representable [OF v]
  have big: "(2::real) ^ 1024 * 10 < 2 ^ 1100" "(2::real) ^ 1024 + 2 < 2 ^ 1100" by simp_all
  have ylt: "?y < 2 ^ 1100" using av(2) big(1) by linarith
  have wlt: "?w < 2 ^ 1100" using vd(2) big(2) by linarith
  have y1: "1 / 4 \<le> ?y"
  proof (rule ccontr)
    assume "\<not> 1 / 4 \<le> ?y"
    then have "?y \<le> 1 / 4" by simp
    from nearest_le [OF _ _ grid_constants(1) this] have "nearest ?y \<le> 1 / 4" by simp
    with xa(1) t show False by simp
  qed
  have y2: "?y < 1 / 2"
  proof (rule ccontr)
    assume "\<not> ?y < 1 / 2"
    then have "1 / 2 \<le> ?y" by simp
    from nearest_ge [OF _ grid_constants(2) this ylt] have "1 / 2 \<le> nearest ?y" by simp
    with xa(1) t show False by simp
  qed
  have "exponent ?y = - 2"
    using y1 y2 by (intro exponent_unique) (simp_all add: powi_neg_numeral)
  then have "ulp ?y = 1 / 2 ^ 54" by (simp add: ulp_def powi_neg_numeral)
  with nearest_error [of ?y] xa(1) have err: "\<bar>x - ?y\<bar> \<le> 1 / 2 ^ 55" by simp
  from err have e1: "x - ?y \<le> 1 / 2 ^ 55" and e2: "?y - x \<le> 1 / 2 ^ 55" by linarith+
  from e1 t have y3: "1 / 2 - 3 / 2 ^ 55 \<le> ?y" by simp
  from e2 t have y4: "?y \<le> 1 / 2 - 1 / 2 ^ 55" by simp
  have w1: "1 / 32 \<le> ?w"
  proof (rule ccontr)
    assume "\<not> 1 / 32 \<le> ?w"
    then have "?w \<le> 1 / 32" by simp
    from nearest_le [OF _ _ grid_constants(3) this] have "nearest ?w \<le> 1 / 32" by simp
    with av(1) y3 show False by simp
  qed
  have w2: "?w < 1 / 16"
  proof (rule ccontr)
    assume "\<not> ?w < 1 / 16"
    then have "1 / 16 \<le> ?w" by simp
    from nearest_ge [OF _ grid_constants(4) this wlt] have "1 / 16 \<le> nearest ?w" by simp
    with av(1) y4 show False by simp
  qed
  have "exponent v = 0"
    using w1 w2 by (intro exponent_unique) simp_all
  then have uv: "ulp v = 1 / 2 ^ 52" by (simp add: ulp_def powi_neg_numeral)
  from vd(1) obtain M where "v = of_int M * ulp v" by blast
  then have vM: "v = of_int M * (1 / 2 ^ 52)" unfolding uv .
  have wN: "?w = of_int (M + 2 ^ 53) * (1 / 2 ^ 52)"
    unfolding vM by (simp add: algebra_simps)
  have "exponent ?w = - 5"
    using w1 w2 by (intro exponent_unique) (simp_all add: powi_neg_numeral)
  then have uw: "ulp ?w = 1 / 2 ^ 57" by (simp add: ulp_def powi_neg_numeral)
  have "?w = of_int ((M + 2 ^ 53) * 32) * (1 / 2 ^ 57)"
    unfolding wN by simp
  then have "?w = of_int ((M + 2 ^ 53) * 32) * ulp ?w" unfolding uw .
  from nearest_fix [OF this] av(1) have aw: "a = ?w" by simp
  have yN: "?y = of_int (80 * (M + 2 ^ 53)) / 2 ^ 55"
    unfolding aw wN by simp
  from y3 have "real_of_int (2 ^ 54 - 3) \<le> of_int (80 * (M + 2 ^ 53))"
    unfolding yN by (simp add: field_simps)
  then have 1: "2 ^ 54 - 3 \<le> 80 * (M + 2 ^ 53)" by (simp only: of_int_le_iff)
  from y4 have "real_of_int (80 * (M + 2 ^ 53)) \<le> of_int (2 ^ 54 - 1)"
    unfolding yN by (simp add: field_simps)
  then have 2: "80 * (M + 2 ^ 53) \<le> 2 ^ 54 - 1" by (simp only: of_int_le_iff)
  from 1 2 no_multiple_of_80 [of "M + 2 ^ 53"] show False by blast
qed

text \<open>The byte of the writer and the byte of the specification, by the kind of number.\<close>

lemma clamp_floor:
  "\<lfloor>min (max (real_of_int n) 0) 255\<rfloor> = min (max n 0) 255"
  "\<lfloor>max 0 (min 255 (real_of_int n))\<rfloor> = max 0 (min 255 n)"
proof -
  have "min (max (real_of_int n) 0) 255 = of_int (min (max n 0) 255)"
    by (simp add: min_def max_def)
  then show "\<lfloor>min (max (real_of_int n) 0) 255\<rfloor> = min (max n 0) 255"
    by (simp only: floor_of_int)
  have "max 0 (min 255 (real_of_int n)) = of_int (max 0 (min 255 n))"
    by (simp add: min_def max_def)
  then show "\<lfloor>max 0 (min 255 (real_of_int n))\<rfloor> = max 0 (min 255 n)"
    by (simp only: floor_of_int)
qed

lemma clamped_not_infinite:
  "dmin (dmax c (Finite 0)) (Finite 255) \<noteq> PlusInfinity"
  "dmin (dmax c (Finite 0)) (Finite 255) \<noteq> MinusInfinity"
  "spec_clamp c (Finite 0) (Finite 255) \<noteq> PlusInfinity"
  "spec_clamp c (Finite 0) (Finite 255) \<noteq> MinusInfinity"
  by (cases c; simp add: spec_clamp_def)+

lemma writer_byte_cases:
  "integerValue (dmin (dmax (dfloor c) (Finite 0)) (Finite 255)) =
     (case c of
        Finite x \<Rightarrow> Some (min (max \<lfloor>x\<rfloor> 0) 255)
      | PlusInfinity \<Rightarrow> Some 255
      | MinusInfinity \<Rightarrow> Some 0
      | NaN \<Rightarrow> None)"
  by (simp add: clamp_floor split: double.splits)

lemma spec_byte_cases:
  "integerValue (spec_clamp (spec_round b) (Finite 0) (Finite 255)) =
     (case b of
        Finite x \<Rightarrow> Some (max 0 (min 255 (round x)))
      | PlusInfinity \<Rightarrow> Some 255
      | MinusInfinity \<Rightarrow> Some 0
      | NaN \<Rightarrow> None)"
  by (simp add: spec_clamp_def clamp_floor split: double.splits)

lemmas byte_eval = compressMag_def spec_magnitudeByte_def writer_byte_cases spec_byte_cases

lemma dmul_ten:
  assumes "dmul a (Finite 10) = Finite x"
  shows "\<exists>a'. a = Finite a' \<and> toDouble (a' * 10) = Finite x"
  using assms by (cases a) (simp_all add: infinityTimes_def dneg_def)

lemma grid_256: "(256::real) = of_int (2 ^ 52) * ulp 256"
  by (simp add: ulp_def exponent_values powi_neg_numeral)

lemma half_case:
  assumes rep: "0 < x \<Longrightarrow> \<exists>m. x = of_int m * ulp x"
    and special: "x \<noteq> 1 / 2 - 1 / 2 ^ 54"
    and fin: "x < 2 ^ 1024"
  shows "(case toDouble (x + 1 / 2) of
            Finite c \<Rightarrow> Some (min (max \<lfloor>c\<rfloor> 0) 255)
          | PlusInfinity \<Rightarrow> Some 255
          | MinusInfinity \<Rightarrow> Some 0
          | NaN \<Rightarrow> None) = Some (max 0 (min 255 \<lfloor>x + 1 / 2\<rfloor>))"
proof -
  let ?y = "x + 1 / 2" and ?c = "nearest (x + 1 / 2)"
  have big: "(256::real) < 2 ^ 1024" "(2::real) ^ 1024 + 1 / 2 < 2 ^ 1100" by simp_all
  consider (neg) "?y < 0" | (mid) "0 \<le> ?y" "?y < 256" | (high) "256 \<le> ?y" by linarith
  then show ?thesis
  proof cases
    case neg
    then have c: "?c \<le> 0" by (intro nearest_nonpos) simp
    from neg have "\<lfloor>?y\<rfloor> < 0" by (simp add: floor_less_iff)
    moreover from c have "\<lfloor>?c\<rfloor> \<le> 0" by (simp add: floor_le_iff)
    moreover from c have "\<not> 2 ^ 1024 \<le> ?c" by simp
    ultimately show ?thesis by (simp add: toDouble_def Let_def)
  next
    case high
    from fin big(2) have "?y < 2 ^ 1100" by linarith
    from nearest_ge [OF _ grid_256 high this] have c: "256 \<le> ?c" by simp
    then have "256 \<le> \<lfloor>?c\<rfloor>" by (simp add: le_floor_iff)
    moreover from high have "256 \<le> \<lfloor>?y\<rfloor>" by (simp add: le_floor_iff)
    moreover from c have "\<not> ?c \<le> - (2 ^ 1024)" by simp
    ultimately show ?thesis by (simp add: toDouble_def Let_def)
  next
    case mid
    define n where "n = \<lfloor>?y\<rfloor>"
    from mid have n0: "0 \<le> n" and n255: "n \<le> 255"
      by (simp_all add: n_def le_floor_iff floor_le_iff) 
    have ny: "of_int n \<le> ?y" by (simp add: n_def)
    from half_lower [OF mid ny] have lo: "of_int n \<le> ?c" .
    from half_upper [OF rep special n_def n0 n255] have hi: "?c < of_int n + 1" by simp
    from lo hi have fl: "\<lfloor>?c\<rfloor> = n" by (simp add: floor_unique)
    from lo n0 have "0 \<le> ?c" by linarith
    then have 1: "\<not> ?c \<le> - (2 ^ 1024)" by simp
    from hi n255 have "?c < 256" by linarith
    with big(1) have 2: "\<not> 2 ^ 1024 \<le> ?c" by linarith
    from 1 2 fl n0 n255 show ?thesis
      by (simp add: toDouble_def Let_def n_def [symmetric])
  qed
qed

text \<open>The result of rounding is a double.\<close>

lemma rne_minus: "roundTiesToEven (- q) = - roundTiesToEven q"
proof (cases "q = of_int \<lfloor>q\<rfloor>")
  case True
  then obtain n where "q = of_int n" by blast
  then have "- q = of_int (- n)" by simp
  then have "roundTiesToEven (- q) = - n" by (simp only: rne_of_int)
  with \<open>q = of_int n\<close> show ?thesis by simp
next
  case False
  have "of_int \<lfloor>q\<rfloor> \<le> q" "q < of_int \<lfloor>q\<rfloor> + 1" by linarith+
  with False have r: "0 < q - of_int \<lfloor>q\<rfloor>" "q - of_int \<lfloor>q\<rfloor> < 1" by linarith+
  have f: "\<lfloor>- q\<rfloor> = - \<lfloor>q\<rfloor> - 1"
    using r by (intro floor_unique) simp_all
  show ?thesis
    using r by (auto simp add: roundTiesToEven_def Let_def f)
qed

lemma nearest_minus: "nearest (- y) = - nearest y"
  by (simp add: nearest_def ulp_def rne_minus)

lemma halvings_le: "halvings k x \<le> k"
  by (induction k arbitrary: x) simp_all

lemma exponent_le: "exponent x \<le> 1100"
  using halvings_le [of 1100 "\<bar>x\<bar>"] by (simp add: exponent_def)

lemma nearest_large:
  assumes "2 ^ 1099 \<le> y"
  shows "2 ^ 1024 \<le> nearest y"
proof -
  have "exponent y - 52 \<le> 1048" using exponent_le [of y] by simp
  then have "(2::real) powi (exponent y - 52) \<le> 2 powi 1048" by (rule powi_mono)
  then have u: "ulp y \<le> 2 ^ 1048" by (simp add: ulp_def)
  have "y - ulp y / 2 \<le> nearest y" using nearest_error [of y] by linarith
  moreover have "(2::real) ^ 1024 \<le> 2 ^ 1099 - 2 ^ 1048 / 2" by simp
  ultimately show ?thesis using assms u by linarith
qed

lemma nearest_representable_pos:
  assumes "0 < y" and "nearest y < 2 ^ 1024"
  shows "\<exists>m. nearest y = of_int m * ulp (nearest y)"
proof -
  have "y < 2 ^ 1099"
  proof (rule ccontr)
    assume "\<not> y < 2 ^ 1099"
    then have "2 ^ 1099 \<le> y" by simp
    from nearest_large [OF this] assms(2) show False by simp
  qed
  from nearest_representable [OF assms(1) this] show ?thesis .
qed

lemma toDouble_isDouble:
  assumes "toDouble v = Finite d"
  shows "isDouble d"
proof -
  note d = toDouble_Finite [OF assms]
  have rep: "\<exists>m. d = of_int m * ulp d"
  proof (cases "0 < v")
    case True
    from nearest_representable_pos [OF True] d show ?thesis by simp
  next
    case False
    show ?thesis
    proof (cases "v = 0")
      case True
      then have "d = 0" using d(1) nearest_nonneg [of 0] nearest_nonpos [of 0] by simp
      then have "d = of_int 0 * ulp d" by simp
      then show ?thesis by blast
    next
      case nz: False
      with False have pos: "0 < - v" by simp
      have n: "nearest (- v) = - d" using d(1) by (simp add: nearest_minus)
      with d(3) have "nearest (- v) < 2 ^ 1024" by simp
      from nearest_representable_pos [OF pos this] obtain m
        where "nearest (- v) = of_int m * ulp (nearest (- v))" by blast
      then have "- d = of_int m * ulp d" unfolding n by (simp add: ulp_def)
      then have "d = of_int (- m) * ulp d" by simp
      then show ?thesis by blast
    qed
  qed
  then obtain m where "d = of_int m * ulp d" by blast
  from nearest_fix [OF this] d(2,3) show ?thesis
    by (simp add: isDouble_def toDouble_def Let_def)
qed

text \<open>The two formulas on a double, and on the double of any number.\<close>

lemma double_byte_formulas:
  assumes "isDouble v"
  shows "integerValue (dmin (dmax (dfloor
           (dadd (dmul (dadd (Finite v) (Finite 2)) (Finite 10)) (Finite (1 / 2)))) (Finite 0)) (Finite 255)) =
         integerValue (spec_clamp (spec_round
           (dmul (dadd (Finite v) (Finite 2)) (Finite 10))) (Finite 0) (Finite 255))"
proof (cases "dmul (dadd (Finite v) (Finite 2)) (Finite 10)")
  case (Finite x)
  from dmul_ten [OF Finite] obtain a where a: "toDouble (v + 2) = Finite a"
    and x: "toDouble (a * 10) = Finite x" by auto
  note xa = toDouble_Finite [OF x] and av = toDouble_Finite [OF a]
  have rep: "\<exists>m. x = of_int m * ulp x" if "0 < x"
  proof -
    have "0 < a * 10"
    proof (rule ccontr)
      assume "\<not> 0 < a * 10"
      then have "nearest (a * 10) \<le> 0" by (intro nearest_nonpos) simp
      with xa(1) that show False by simp
    qed
    moreover have "a * 10 < 2 ^ 1099"
    proof -
      have "(2::real) ^ 1024 * 10 < 2 ^ 1099" by simp
      with av(2) show ?thesis by linarith
    qed
    ultimately show ?thesis using nearest_representable [of "a * 10"] xa(1) by simp
  qed
  note special = product_not_special [OF assms a x]
  show ?thesis
    unfolding writer_byte_cases spec_byte_cases
    using half_case [OF rep special xa(2)] Finite by (simp add: round_def)
next
  case PlusInfinity
  then show ?thesis unfolding writer_byte_cases spec_byte_cases by simp
next
  case MinusInfinity
  then show ?thesis unfolding writer_byte_cases spec_byte_cases by simp
next
  case NaN
  then show ?thesis unfolding writer_byte_cases spec_byte_cases by simp
qed

lemma compressMag_spec: "compressMag v = spec_magnitudeByte v"
proof (cases "toDouble v")
  case (Finite d)
  from double_byte_formulas [OF toDouble_isDouble [OF Finite]] Finite show ?thesis
    by (simp add: compressMag_def spec_magnitudeByte_def)
next
  case PlusInfinity
  then show ?thesis unfolding byte_eval Let_def by (simp add: infinityTimes_def)
next
  case MinusInfinity
  then show ?thesis unfolding byte_eval Let_def by (simp add: infinityTimes_def)
next
  case NaN
  then show ?thesis unfolding byte_eval Let_def by simp
qed

subsection \<open>The magnitude byte\<close>

lemma recordItems_mag:
  "recordItems s dp i star ! 8 = UInt8 (case vmag star of None \<Rightarrow> None | Some v \<Rightarrow> compressMag v)"
  by (simp add: recordItems_def nth_append)

subsection \<open>Proper names of the cross index\<close>

lemma isLowerNotL_iff: "isLowerNotL b \<longleftrightarrow> isLower b \<and> b \<noteq> CHR ''l''"
  by (auto simp: isLowerNotL_def isLower_def lowerLetters_def)

lemma FK5_prefix_iff:
  "FK5_prefix c \<longleftrightarrow>
     (\<exists>a rest. c = a # CHR '' '' # rest \<and> isLower a) \<or>
     (\<exists>a b rest. c = a # b # CHR '' '' # rest \<and> isLower a \<and> isLower b \<and> b \<noteq> CHR ''l'')"
proof (cases c)
  case Nil
  then show ?thesis by simp
next
  case outer: (Cons a c')
  show ?thesis
  proof (cases c')
    case Nil
    with outer show ?thesis by simp
  next
    case (Cons b c'')
    with outer show ?thesis
      by (cases c'') (auto simp: isLowerNotL_iff)
  qed
qed

lemma fk5Name_candidate:
  "fk5Name line =
     (let c = fk5CandidateName line in
      if c = [] \<or> FK5_NAMES_TO_SKIP c then None else Some (toMixedCase c))"
  unfolding fk5Name_def fk5CandidateName_def Let_def by simp

lemma fk5Name_at_103:
  "length p = 103 \<Longrightarrow> fk5Name (p @ nm) =
     (let c = (let n = trim nm in if n \<noteq> [] then
                 (let pos = indexOf n (CHR '';'') in if pos \<ge> 0 then trim (substring 0 (nat pos) n) else n)
               else n)
      in if c = [] \<or> FK5_NAMES_TO_SKIP c then None else Some (toMixedCase c))"
  unfolding fk5Name_candidate fk5CandidateName_def substringFrom_def by simp

text \<open>
  C8 (as amended). Let \<open>c\<close> be the candidate name of a line: the text from column 103,
  trimmed and cut at the first semicolon. The loader stores no name if and only if \<open>c\<close> is
  empty, or contains a digit, or begins with one lower-case letter and a space, or begins
  with one lower-case letter, one more lower-case letter other than "l", and a space;
  otherwise it stores \<open>c\<close> in title case. "12 Persei" and "b Persei" are rejected,
  "Polaris" is stored as "Polaris".
\<close>

theorem fk5_name_rule:
  "fk5Name line =
     (let c = fk5CandidateName line in
      if c = [] \<or> (\<exists>d \<in> set c. isDigit d) \<or>
         (\<exists>a rest. c = a # CHR '' '' # rest \<and> isLower a) \<or>
         (\<exists>a b rest. c = a # b # CHR '' '' # rest \<and> isLower a \<and> isLower b \<and> b \<noteq> CHR ''l'')
      then None else Some (toMixedCase c))
   \<and> (length p = 103 \<longrightarrow>
        fk5Name (p @ ''12 Persei'') = None \<and> fk5Name (p @ ''b Persei'') = None \<and>
        fk5Name (p @ ''Polaris'') = Some ''Polaris'')"
proof (intro conjI impI)
  show "fk5Name line =
     (let c = fk5CandidateName line in
      if c = [] \<or> (\<exists>d \<in> set c. isDigit d) \<or>
         (\<exists>a rest. c = a # CHR '' '' # rest \<and> isLower a) \<or>
         (\<exists>a b rest. c = a # b # CHR '' '' # rest \<and> isLower a \<and> isLower b \<and> b \<noteq> CHR ''l'')
      then None else Some (toMixedCase c))"
    unfolding fk5Name_candidate FK5_NAMES_TO_SKIP_def FK5_prefix_iff list_ex_iff Let_def
    by (simp cong: if_cong)
next
  assume p: "length p = 103"
  show "fk5Name (p @ ''12 Persei'') = None"
    by (simp add: fk5Name_at_103 [OF p] trim_def FK5_NAMES_TO_SKIP_def char_class_defs)
  show "fk5Name (p @ ''b Persei'') = None"
    by (simp add: fk5Name_at_103 [OF p] trim_def FK5_NAMES_TO_SKIP_def char_class_defs)
  show "fk5Name (p @ ''Polaris'') = Some ''Polaris''"
    by (simp add: fk5Name_at_103 [OF p] trim_def FK5_NAMES_TO_SKIP_def toMixedCase_def char_class_defs)
qed

theorem fk5_name_rule_witness:
  "length (replicate 103 (CHR '' '')) = 103 \<and>
   fk5CandidateName (replicate 103 (CHR '' '') @ ''ALCYONE; in Pleiades'') = ''ALCYONE'' \<and>
   fk5Name (replicate 103 (CHR '' '') @ ''ALCYONE; in Pleiades'') = Some ''Alcyone'' \<and>
   fk5Name (replicate 103 (CHR '' '') @ ''Polaris'') = Some ''Polaris''"
proof -
  have c: "fk5CandidateName (replicate 103 (CHR '' '') @ ''ALCYONE; in Pleiades'') = ''ALCYONE''"
    by (simp add: fk5CandidateName_def substringFrom_def substring_def trim_def char_class_defs)
  have m: "toMixedCase ''ALCYONE'' = ''Alcyone''"
    by (simp add: toMixedCase_def char_class_defs)
  have d: "\<not> (\<exists>d \<in> set ''ALCYONE''. isDigit d)"
    by (simp add: char_class_defs)
  show ?thesis
    using fk5_name_rule [of "replicate 103 (CHR '' '') @ ''ALCYONE; in Pleiades''" "replicate 103 (CHR '' '')"]
    unfolding c Let_def using m d by (simp add: char_class_defs)
qed

text \<open>
  The rule as the specification words it rejects "al Nair" (lower-case "a", lower-case
  "l", space); the loader stores it.
\<close>

theorem fk5_name_rule_counterexample:
  "spec_rejectsName ''al Nair'' \<and>
   fk5CandidateName (replicate 103 (CHR '' '') @ ''al Nair'') = ''al Nair'' \<and>
   fk5Name (replicate 103 (CHR '' '') @ ''al Nair'') = Some ''Al Nair''"
  by (simp add: spec_rejectsName_def fk5Name_at_103 fk5CandidateName_def substringFrom_def
      trim_def FK5_NAMES_TO_SKIP_def toMixedCase_def char_class_defs)

subsection \<open>The Bright Star Catalog: one line of the second scan\<close>

lemma fk5Index_modify [simp]: "fk5Index (modify r f s) = fk5Index s"
  by (simp add: modify_def split: option.splits)

lemma totalBSC_modify [simp]: "totalBSC (modify r f s) = totalBSC s"
  by (simp add: modify_def split: option.splits)

lemma annotate_keys [simp]:
  "fk5Index (annotateBrightStar s l k r) = fk5Index s"
  "totalBSC (annotateBrightStar s l k r) = totalBSC s"
  by (simp_all add: annotateBrightStar_def Let_def)

lemma addBrightStar_keys:
  "fst (addBrightStar s l) = highestFK5 s + addedStars s + 1"
  "fk5Index (snd (addBrightStar s l)) = (fk5Index s)(highestFK5 s + addedStars s + 1 \<mapsto> nextRef s)"
  "totalBSC (snd (addBrightStar s l)) = totalBSC s + 1"
  by (simp_all add: addBrightStar_def alloc_def Let_def add.assoc)

lemma mergeLine_cases:
  assumes "trim (bsc_text l) \<noteq> []" "bsc2fk5 s (bsc_bscNum l) = Some e" "bsc_vmagStr l \<noteq> []"
    and "resolvedFK5 s l e = 0 \<or> resolvedFK5 s l e > highestFK5 s \<or> fk5Index s (resolvedFK5 s l e) = None"
  shows "if brightEnough (bsc_vmag l) (bsc_bscNum l) (bsc_bayerRank l)
         then fk5Index (mergeLine s l) = (fk5Index s)(highestFK5 s + addedStars s + 1 \<mapsto> nextRef s) \<and>
              totalBSC (mergeLine s l) = totalBSC s + 1
         else fk5Index (mergeLine s l) = fk5Index s \<and> totalBSC (mergeLine s l) = totalBSC s"
proof (cases "brightEnough (bsc_vmag l) (bsc_bscNum l) (bsc_bayerRank l)")
  case True
  obtain k s1 where a: "addBrightStar s l = (k, s1)" by (cases "addBrightStar s l")
  from addBrightStar_keys [of s l] a
  have k: "k = highestFK5 s + addedStars s + 1"
    and i: "fk5Index s1 = (fk5Index s)(highestFK5 s + addedStars s + 1 \<mapsto> nextRef s)"
    and t: "totalBSC s1 = totalBSC s + 1" by simp_all
  show ?thesis using assms True a i t
    by (simp add: mergeLine_def Let_def split: option.splits)
next
  case False
  show ?thesis using assms False
    by (auto simp add: mergeLine_def Let_def split: option.splits)
qed

lemma brightEnough_rank:
  "v > magLimitBSC \<Longrightarrow> n \<notin> set bscExtras \<Longrightarrow>
   brightEnough v n rank \<longleftrightarrow> 0 < rank \<and> rank < 8 \<and> v \<le> 6.5"
  by (auto simp: brightEnough_def magLimitBSC_def)

lemma bsc2fk5_modify [simp]: "bsc2fk5 (modify r f s) = bsc2fk5 s"
  by (simp add: modify_def split: option.splits)

lemma bsc2fk5_addBrightStar [simp]: "bsc2fk5 (snd (addBrightStar s l)) = bsc2fk5 s"
  by (simp add: addBrightStar_def alloc_def Let_def)

lemma bsc2fk5_annotate:
  "bsc2fk5 (annotateBrightStar s l k r) = (bsc2fk5 s)(bsc_bscNum l \<mapsto> k)"
  by (simp add: annotateBrightStar_def Let_def)

lemma mergeLine_bsc2fk5_other:
  "k \<noteq> bsc_bscNum l \<Longrightarrow> bsc2fk5 (mergeLine s l) k = bsc2fk5 s k"
  by (cases "addBrightStar s l")
    (use bsc2fk5_addBrightStar [of s l] in
      \<open>auto simp add: mergeLine_def Let_def bsc2fk5_annotate split: option.splits\<close>)

lemma mergeLine_dupe: "bsc2fk5 s (bsc_bscNum l) = None \<Longrightarrow> mergeLine s l = s"
  by (simp add: mergeLine_def)

lemma mergeLine_added:
  assumes "trim (bsc_text l) \<noteq> []" "bsc2fk5 s (bsc_bscNum l) = Some e" "bsc_vmagStr l \<noteq> []"
    and "brightEnough (bsc_vmag l) (bsc_bscNum l) (bsc_bayerRank l)"
    and "resolvedFK5 s l e = 0" and "0 \<le> highestFK5 s + addedStars s"
  shows "mergeLine s l =
     annotateBrightStar (snd (addBrightStar s l)) l (highestFK5 s + addedStars s + 1) (nextRef s)"
proof -
  obtain k s1 where a: "addBrightStar s l = (k, s1)" by (cases "addBrightStar s l")
  from addBrightStar_keys [of s l] a
  have k: "k = highestFK5 s + addedStars s + 1"
    and i: "fk5Index s1 = (fk5Index s)(highestFK5 s + addedStars s + 1 \<mapsto> nextRef s)"
    by simp_all
  show ?thesis using assms a k i
    by (simp add: mergeLine_def Let_def)
qed

subsection \<open>The Bright Star Catalog: one line of the first scan\<close>

lemma scan_two:
  assumes a: "trim (bsc_text a) \<noteq> []" "bsc_vmagStr a \<noteq> []"
    and nonblank: "trim (bsc_name a) \<noteq> []"
    and kept: "\<not> (bsc_name a = lastName sc \<and> bsc_vmag a \<ge> lastMag sc)"
  shows "lastBSC (snd (scanLine hF (t, sc) a)) = bsc_bscNum a"
    and "lastName (snd (scanLine hF (t, sc) a)) = bsc_name a"
    and "lastMag (snd (scanLine hF (t, sc) a)) = bsc_vmag a"
    and "lastFK5 (snd (scanLine hF (t, sc) a)) =
          (if bsc_name a = lastName sc then max (lastFK5 sc) (scanFK5 hF a) else scanFK5 hF a)"
  using a nonblank kept by (auto simp add: scanLine_def Let_def)

lemma scan_dupe:
  assumes b: "trim (bsc_text b) \<noteq> []" "bsc_vmagStr b \<noteq> []"
    and same: "bsc_name b = lastName sc" "trim (bsc_name b) \<noteq> []"
    and distinct: "lastBSC sc \<noteq> bsc_bscNum b"
  shows "fst (scanLine hF (t, sc) b) (bsc_bscNum b) =
           (if bsc_vmag b \<ge> lastMag sc then None else Some (max (lastFK5 sc) (scanFK5 hF b)))"
    and "fst (scanLine hF (t, sc) b) (lastBSC sc) =
           (if bsc_vmag b \<ge> lastMag sc then Some (max (lastFK5 sc) (scanFK5 hF b)) else None)"
  using assms by (auto simp add: scanLine_def Let_def)

lemma scanLine_fresh:
  assumes "trim (bsc_text a) \<noteq> []" "bsc_vmagStr a \<noteq> []"
    and "bsc_name a \<noteq> lastName sc"
  shows "scanLine hF (t, sc) a =
     (t(bsc_bscNum a \<mapsto> 0), sc\<lparr>lastBSC := bsc_bscNum a, lastFK5 := scanFK5 hF a,
        lastName := bsc_name a, lastMag := bsc_vmag a\<rparr>)"
  using assms by (simp add: scanLine_def Let_def)

lemma scanLine_dimmer:
  assumes "trim (bsc_text b) \<noteq> []" "bsc_vmagStr b \<noteq> []"
    and "bsc_name b = lastName sc" "trim (bsc_name b) \<noteq> []" "bsc_vmag b \<ge> lastMag sc"
  shows "scanLine hF (t, sc) b =
     ((t(lastBSC sc \<mapsto> max (lastFK5 sc) (scanFK5 hF b)))(bsc_bscNum b := None),
      sc\<lparr>lastFK5 := max (lastFK5 sc) (scanFK5 hF b), dupes := dupes sc + 1\<rparr>)"
  using assms by (simp add: scanLine_def Let_def fun_upd_twist)

subsection \<open>The example lines\<close>

lemma example_bsc_line_fields:
  "length nm = 10 \<Longrightarrow> bsc_name (example_bsc_line n nm v) = nm"
  "trim (bsc_text (example_bsc_line n nm v)) \<noteq> []"
  "length nm = 10 \<Longrightarrow> bsc_vmagStr (example_bsc_line n nm v) = ''v.vv''"
  "bsc_bscNum (example_bsc_line n nm v) = n" "bsc_vmag (example_bsc_line n nm v) = v"
  "bsc_fk5 (example_bsc_line n nm v) = 0" 
  "length nm = 10 \<Longrightarrow> trim (substring 37 41 (bsc_text (example_bsc_line n nm v))) = []"
  by (simp_all add: example_bsc_line_def bsc_vmagStr_def bsc_name_def substring_def
      trim_def isSpace_def)

lemma example_bsc_line_nums:
  "bsc_hd (example_bsc_line n nm v) = 0" "bsc_flamsteed (example_bsc_line n nm v) = 0"
  "bsc_subIndex (example_bsc_line n nm v) = 0"
  by (simp_all add: example_bsc_line_def)

lemma eps_rank: "bsc_bayerRank (example_bsc_line n ''   Eps Ori'' v) = 5"
  by (simp add: bsc_bayerRank_def example_bsc_line_fields substring_def trim_def toLowerCase_def
      bayerRanks_def char_class_defs)

lemma eps_fields:
  "bsc_name (example_bsc_line n ''   Eps Ori'' v) = ''   Eps Ori''"
  "bsc_vmagStr (example_bsc_line n ''   Eps Ori'' v) \<noteq> []"
  by (simp_all add: example_bsc_line_fields)

lemma eps_constellation:
  "indexOf constellationCodes (toLowerCase (substring 7 10 ''   Eps Ori'')) + 1 = 60"
  by (simp add: substring_def toLowerCase_def constellationCodes_def char_class_defs)

lemma resolved_example:
  "length nm = 10 \<Longrightarrow> resolvedFK5 s (example_bsc_line n nm v) e = e"
  by (simp add: resolvedFK5_def example_bsc_line_fields)

lemma alp_name: 
  "bsc_name (example_bsc_line n ''  9Alp CMa'' v) = ''  9Alp CMa''"
  "trim (bsc_name (example_bsc_line n ''  9Alp CMa'' v)) \<noteq> []"
  "bsc_vmagStr (example_bsc_line n ''  9Alp CMa'' v) \<noteq> []"
  "trim ''  9Alp CMa'' \<noteq> []"
  by (simp_all add: example_bsc_line_fields trim_def isSpace_def)

lemma firstScan_pair:
  assumes "v1 \<le> v2"
  shows "fst (firstScan 0 (\<lambda>_. None)
     [example_bsc_line 1 ''  9Alp CMa'' v1, example_bsc_line 2 ''  9Alp CMa'' v2]) =
   ((\<lambda>_. None)(1 \<mapsto> 0))(2 := None)"
proof -
  let ?x1 = "example_bsc_line 1 ''  9Alp CMa'' v1"
  let ?x2 = "example_bsc_line 2 ''  9Alp CMa'' v2"
  have 1: "scanLine 0 (\<lambda>_. None, initialScan) ?x1 =
      ((\<lambda>_. None)(1 \<mapsto> 0), \<lparr>dupes = 0, lastBSC = 1, lastFK5 = 0, lastName = ''  9Alp CMa'', lastMag = v1\<rparr>)"
    by (subst scanLine_fresh)
      (simp_all add: alp_name example_bsc_line_fields initialScan_def scanFK5_def)
  have 2: "scanLine 0 ((\<lambda>_. None)(1 \<mapsto> 0), \<lparr>dupes = 0, lastBSC = 1, lastFK5 = 0, lastName = ''  9Alp CMa'', lastMag = v1\<rparr>) ?x2 =
      (((\<lambda>_. None)(1 \<mapsto> 0))(2 := None), \<lparr>dupes = 1, lastBSC = 1, lastFK5 = 0, lastName = ''  9Alp CMa'', lastMag = v1\<rparr>)"
    by (subst scanLine_dimmer)
      (simp_all add: alp_name example_bsc_line_fields scanFK5_def assms)
  show ?thesis
    unfolding firstScan_def foldl.simps 1 2 by simp
qed

lemma example_note_line_fields:
  "trim (note_text (example_note_line n)) \<noteq> []"
  "trim (substring 5 11 (note_text (example_note_line n))) = ''1N:''"
  "noteName (substringFrom 12 (note_text (example_note_line n))) = Some ''ALNILAM''"
  "note_bscNum (example_note_line n) = n"
  by (simp_all add: example_note_line_def trim_def substring_def substringFrom_def noteName_def
      isUpperOrSpace_def char_class_defs)

subsection \<open>Acceptance by Bayer rank\<close>

text \<open>
  C2 (as amended). In the second scan, take a line that is not blank, is not flagged as a
  duplicate, has a magnitude, and whose primary number does not refer to an existing
  record. If its magnitude is above the general limit 6 and its number is not in the
  legacy list, a new record is added for it exactly when its Bayer rank is among the
  first 7 and its magnitude is at most 6.5 (the other tier, the first 13 ranks at
  magnitude 6 or less, lies under the general limit). With rank 5 a new record is added
  both at magnitude 6.4 and at magnitude 5.9.
\<close>

theorem bayer_rank_acceptance:
  assumes "trim (bsc_text l) \<noteq> []" and "bsc2fk5 s (bsc_bscNum l) = Some e" and "bsc_vmagStr l \<noteq> []"
    and "resolvedFK5 s l e = 0 \<or> resolvedFK5 s l e > highestFK5 s \<or> fk5Index s (resolvedFK5 s l e) = None"
  shows "(bsc_vmag l > magLimitBSC \<and> bsc_bscNum l \<notin> set bscExtras \<longrightarrow>
            (if 0 < bsc_bayerRank l \<and> bsc_bayerRank l < 8 \<and> bsc_vmag l \<le> 6.5
             then fk5Index (mergeLine s l) = (fk5Index s)(highestFK5 s + addedStars s + 1 \<mapsto> nextRef s) \<and>
                  totalBSC (mergeLine s l) = totalBSC s + 1
             else fk5Index (mergeLine s l) = fk5Index s \<and> totalBSC (mergeLine s l) = totalBSC s))
       \<and> (bsc_bayerRank l = 5 \<and> (bsc_vmag l = 6.4 \<or> bsc_vmag l = 5.9) \<longrightarrow>
            fk5Index (mergeLine s l) = (fk5Index s)(highestFK5 s + addedStars s + 1 \<mapsto> nextRef s) \<and>
            totalBSC (mergeLine s l) = totalBSC s + 1)"
proof -
  let ?added = "fk5Index (mergeLine s l) = (fk5Index s)(highestFK5 s + addedStars s + 1 \<mapsto> nextRef s) \<and>
                totalBSC (mergeLine s l) = totalBSC s + 1"
  let ?same = "fk5Index (mergeLine s l) = fk5Index s \<and> totalBSC (mergeLine s l) = totalBSC s"
  note step = mergeLine_cases [OF assms]
  have tiers: "if 0 < bsc_bayerRank l \<and> bsc_bayerRank l < 8 \<and> bsc_vmag l \<le> 6.5 then ?added else ?same"
    if "bsc_vmag l > magLimitBSC \<and> bsc_bscNum l \<notin> set bscExtras"
  proof -
    from that have "brightEnough (bsc_vmag l) (bsc_bscNum l) (bsc_bayerRank l) \<longleftrightarrow>
        0 < bsc_bayerRank l \<and> bsc_bayerRank l < 8 \<and> bsc_vmag l \<le> 6.5"
      by (simp add: brightEnough_rank)
    with step show ?thesis by simp
  qed
  have five: ?added if "bsc_bayerRank l = 5 \<and> (bsc_vmag l = 6.4 \<or> bsc_vmag l = 5.9)"
  proof -
    from that have "brightEnough (bsc_vmag l) (bsc_bscNum l) (bsc_bayerRank l)"
      by (auto simp: brightEnough_def magLimitBSC_def)
    with step show ?thesis by simp
  qed
  from tiers five show ?thesis by blast
qed

theorem bayer_rank_acceptance_witness:
  "(let l = example_bsc_line 1 ''   Eps Ori'' 6.4;
        s = initialState\<lparr>bsc2fk5 := (\<lambda>_. None)(1 \<mapsto> 0)\<rparr>
    in trim (bsc_text l) \<noteq> [] \<and> bsc2fk5 s (bsc_bscNum l) = Some 0 \<and> bsc_vmagStr l \<noteq> [] \<and>
       resolvedFK5 s l 0 = 0 \<and> bsc_vmag l > magLimitBSC \<and> bsc_bscNum l \<notin> set bscExtras \<and>
       bsc_bayerRank l = 5 \<and> totalBSC (mergeLine s l) = 1 \<and> fk5Index (mergeLine s l) 1 = Some 0)"
proof -
  let ?l = "example_bsc_line 1 ''   Eps Ori'' 6.4"
  let ?s = "initialState\<lparr>bsc2fk5 := (\<lambda>_. None)(1 \<mapsto> 0)\<rparr>"
  have 1: "trim (bsc_text ?l) \<noteq> []" by (rule example_bsc_line_fields)
  have 2: "bsc2fk5 ?s (bsc_bscNum ?l) = Some 0" by (simp add: example_bsc_line_fields)
  have 3: "bsc_vmagStr ?l \<noteq> []" by (rule eps_fields)
  have r: "resolvedFK5 ?s ?l 0 = 0" by (simp add: resolved_example)
  then have 4: "resolvedFK5 ?s ?l 0 = 0 \<or> resolvedFK5 ?s ?l 0 > highestFK5 ?s \<or>
      fk5Index ?s (resolvedFK5 ?s ?l 0) = None" by simp
  show ?thesis
    using bayer_rank_acceptance [OF 1 2 3 4] r
    by (simp add: Let_def example_bsc_line_fields eps_fields eps_rank magLimitBSC_def
        bscExtras_def initialState_def)
qed

text \<open>
  A catalogue of one line with Bayer rank 5 ("Eps") and magnitude 6.4, above the general
  limit and outside the legacy list: the record is added.
\<close>

theorem bayer_rank_acceptance_counterexample:
  "(let l = example_bsc_line 1 ''   Eps Ori'' 6.4;
        s = processYaleBrightStarCatalog initialState [l]
    in bsc_bayerRank l = 5 \<and> bsc_vmag l = 6.4 \<and> bsc_vmag l > magLimitBSC \<and>
       bsc_bscNum l \<notin> set bscExtras \<and> totalBSC s = 1 \<and> fk5Index s 1 = Some 0)"
proof -
  let ?l = "example_bsc_line 1 ''   Eps Ori'' 6.4"
  let ?s = "initialState\<lparr>bsc2fk5 := (\<lambda>_. None)(1 \<mapsto> 0)\<rparr>"
  have scan: "fst (firstScan 0 (\<lambda>_. None) [example_bsc_line 1 ''   Eps Ori'' v]) = (\<lambda>_. None)(1 \<mapsto> 0)" for v
    unfolding firstScan_def foldl.simps
    by (subst scanLine_fresh)
      (simp_all add: eps_fields example_bsc_line_fields initialScan_def)
  have init: "highestFK5 initialState = 0" "bsc2fk5 initialState = (\<lambda>_. None)"
    by (simp_all add: initialState_def)
  have run: "processYaleBrightStarCatalog initialState [?l] = mergeLine ?s ?l"
    by (simp add: processYaleBrightStarCatalog_def scan init)
  have 1: "trim (bsc_text ?l) \<noteq> []" by (rule example_bsc_line_fields)
  have 2: "bsc2fk5 ?s (bsc_bscNum ?l) = Some 0" by (simp add: example_bsc_line_fields)
  have 3: "bsc_vmagStr ?l \<noteq> []" by (rule eps_fields)
  have 4: "resolvedFK5 ?s ?l 0 = 0 \<or> resolvedFK5 ?s ?l 0 > highestFK5 ?s \<or>
      fk5Index ?s (resolvedFK5 ?s ?l 0) = None" by (simp add: resolved_example)
  have b: "brightEnough (bsc_vmag ?l) (bsc_bscNum ?l) (bsc_bayerRank ?l)"
    by (simp add: brightEnough_def eps_rank example_bsc_line_fields)
  show ?thesis
    using mergeLine_cases [OF 1 2 3 4] b unfolding run Let_def
    by (simp add: example_bsc_line_fields eps_rank magLimitBSC_def bscExtras_def initialState_def)
qed

subsection \<open>Duplicates\<close>

text \<open>
  C3 (as amended). Take two consecutive lines \<open>a\<close>, \<open>b\<close> of the first scan that are not
  blank, have a magnitude, different numbers and the same non-blank name field, where \<open>a\<close>
  is itself kept by the scan (it is not dropped as a duplicate of the line kept before
  it). After \<open>b\<close> exactly one of the two has an entry in \<^verbatim>\<open>bsc2fk5\<close>: \<open>a\<close> if \<open>b\<close> is not
  brighter, else \<open>b\<close>; the entry is the maximum of the primary number of \<open>b\<close> and the
  number carried by \<open>a\<close>, which is the maximum of the primary numbers of the pair when
  \<open>a\<close> starts the run of equal names. With magnitudes 3.0 then 4.5 the first line
  survives.
\<close>

theorem duplicate_pair:
  assumes a: "trim (bsc_text a) \<noteq> []" "bsc_vmagStr a \<noteq> []"
    and b: "trim (bsc_text b) \<noteq> []" "bsc_vmagStr b \<noteq> []"
    and same: "bsc_name a = bsc_name b" "trim (bsc_name a) \<noteq> []"
    and distinct: "bsc_bscNum a \<noteq> bsc_bscNum b"
    and kept: "\<not> (bsc_name a = lastName sc \<and> bsc_vmag a \<ge> lastMag sc)"
  shows "let s1 = scanLine hF (t, sc) a;
             t2 = fst (scanLine hF s1 b);
             m = max (lastFK5 (snd s1)) (scanFK5 hF b)
         in (if bsc_vmag b \<ge> bsc_vmag a
             then t2 (bsc_bscNum a) = Some m \<and> t2 (bsc_bscNum b) = None
             else t2 (bsc_bscNum b) = Some m \<and> t2 (bsc_bscNum a) = None)
            \<and> (bsc_name a \<noteq> lastName sc \<longrightarrow> m = max (scanFK5 hF a) (scanFK5 hF b))
            \<and> (bsc_vmag a = 3.0 \<and> bsc_vmag b = 4.5 \<longrightarrow>
                 t2 (bsc_bscNum a) \<noteq> None \<and> t2 (bsc_bscNum b) = None)"
proof -
  obtain t1 sc1 where s1: "scanLine hF (t, sc) a = (t1, sc1)"
    by (cases "scanLine hF (t, sc) a")
  from scan_two [OF a same(2) kept, of hF t] s1
  have last: "lastBSC sc1 = bsc_bscNum a" "lastName sc1 = bsc_name a" "lastMag sc1 = bsc_vmag a"
    "lastFK5 sc1 = (if bsc_name a = lastName sc then max (lastFK5 sc) (scanFK5 hF a) else scanFK5 hF a)"
    by simp_all
  have "bsc_name b = lastName sc1" "trim (bsc_name b) \<noteq> []" "lastBSC sc1 \<noteq> bsc_bscNum b"
    using last same distinct by simp_all
  from scan_dupe [OF b this, of hF t1] last s1
  show ?thesis by (simp add: Let_def)
qed

theorem duplicate_pair_witness:
  "(let a = example_bsc_line 1 ''  9Alp CMa'' 3.0; b = example_bsc_line 2 ''  9Alp CMa'' 4.5;
        t2 = fst (scanLine 0 (scanLine 0 (\<lambda>_. None, initialScan) a) b)
    in bsc_name a = bsc_name b \<and> trim (bsc_name a) \<noteq> [] \<and> t2 1 = Some 0 \<and> t2 2 = None)"
proof -
  let ?a = "example_bsc_line 1 ''  9Alp CMa'' 3.0"
  let ?b = "example_bsc_line 2 ''  9Alp CMa'' 4.5"
  have k: "\<not> (bsc_name ?a = lastName initialScan \<and> bsc_vmag ?a \<ge> lastMag initialScan)"
    by (simp add: alp_name initialScan_def)
  have d: "bsc_bscNum ?a \<noteq> bsc_bscNum ?b"
    by (simp add: example_bsc_line_fields)
  have e: "bsc_name ?a = bsc_name ?b"
    by (simp add: alp_name)
  have f: "lastFK5 (snd (scanLine 0 (\<lambda>_. None, initialScan) ?a)) = 0"
    using scan_two(4) [OF example_bsc_line_fields(2) alp_name(3) alp_name(2) k, of 0 "\<lambda>_. None"]
    by (simp add: alp_name initialScan_def scanFK5_def example_bsc_line_fields)
  show ?thesis
    using duplicate_pair [OF example_bsc_line_fields(2) alp_name(3) example_bsc_line_fields(2)
        alp_name(3) e alp_name(2) d k, of 0 "\<lambda>_. None"] f
    by (simp add: Let_def alp_name example_bsc_line_fields scanFK5_def trim_def isSpace_def)
qed

text \<open>
  Three consecutive lines with the same name and magnitudes 3.0, 4.5, 4.0: the scan
  compares the third line with the first (the last line kept), so of the consecutive
  lines 2 and 3 neither survives, although line 3 is the brighter of the two.
\<close>

theorem duplicate_pair_counterexample:
  "(let x1 = example_bsc_line 1 ''  9Alp CMa'' 3.0; x2 = example_bsc_line 2 ''  9Alp CMa'' 4.5;
        x3 = example_bsc_line 3 ''  9Alp CMa'' 4.0;
        t = fst (firstScan 0 (\<lambda>_. None) [x1, x2, x3])
    in bsc_name x2 = bsc_name x3 \<and> trim (bsc_name x2) \<noteq> [] \<and> trim (bsc_text x2) \<noteq> [] \<and>
       trim (bsc_text x3) \<noteq> [] \<and> bsc_vmag x3 < bsc_vmag x2 \<and> t 2 = None \<and> t 3 = None)"
proof -
  let ?x1 = "example_bsc_line 1 ''  9Alp CMa'' 3.0"
  let ?x2 = "example_bsc_line 2 ''  9Alp CMa'' 4.5"
  let ?x3 = "example_bsc_line 3 ''  9Alp CMa'' 4.0"
  have 1: "scanLine 0 (\<lambda>_. None, initialScan) ?x1 =
      ((\<lambda>_. None)(1 \<mapsto> 0), \<lparr>dupes = 0, lastBSC = 1, lastFK5 = 0, lastName = ''  9Alp CMa'', lastMag = 3\<rparr>)"
    by (subst scanLine_fresh)
      (simp_all add: alp_name example_bsc_line_fields initialScan_def scanFK5_def)
  have 2: "scanLine 0 ((\<lambda>_. None)(1 \<mapsto> 0), \<lparr>dupes = 0, lastBSC = 1, lastFK5 = 0, lastName = ''  9Alp CMa'', lastMag = 3\<rparr>) ?x2 =
      (((\<lambda>_. None)(1 \<mapsto> 0))(2 := None), \<lparr>dupes = 1, lastBSC = 1, lastFK5 = 0, lastName = ''  9Alp CMa'', lastMag = 3\<rparr>)"
    by (subst scanLine_dimmer)
      (simp_all add: alp_name example_bsc_line_fields scanFK5_def)
  have 3: "scanLine 0 (((\<lambda>_. None)(1 \<mapsto> 0))(2 := None), \<lparr>dupes = 1, lastBSC = 1, lastFK5 = 0, lastName = ''  9Alp CMa'', lastMag = 3\<rparr>) ?x3 =
      ((((\<lambda>_. None)(1 \<mapsto> 0))(2 := None))(3 := None), \<lparr>dupes = 2, lastBSC = 1, lastFK5 = 0, lastName = ''  9Alp CMa'', lastMag = 3\<rparr>)"
    by (subst scanLine_dimmer)
      (simp_all add: alp_name example_bsc_line_fields scanFK5_def)
  show ?thesis
    unfolding Let_def firstScan_def foldl.simps 1 2 3
    by (simp add: alp_name example_bsc_line_fields)
qed

subsection \<open>The notes\<close>

lemma noteLine_missing:
  assumes "trim (note_text l) \<noteq> []" and "bsc2fk5 s (note_bscNum l) = None"
    and "trim (substring 5 11 (note_text l)) = ''1N:''"
    and "noteName (substringFrom 12 (note_text l)) = Some nm"
  shows "noteLine s l = Inl TypeError"
  using assms by (simp add: noteLine_def)

text \<open>
  C9. A catalogue with two consecutive lines for the same star (numbers 1 and 2, the
  second dimmer, so that its entry is deleted from \<^verbatim>\<open>bsc2fk5\<close>) and a notes line with the
  code \<^verbatim>\<open>1N:\<close> for star 2: the guard \<^verbatim>\<open>bsc2fk5[bscNum] === 0\<close> lets the deleted entry
  pass, the lookup of the record finds nothing, and the assignment of the name throws.
\<close>

theorem notes_missing_record:
  "pipeline (no_sources\<lparr>bscCatalog :=
       [example_bsc_line 1 ''  9Alp CMa'' 3.0, example_bsc_line 2 ''  9Alp CMa'' 4.5],
     bscNotes := [example_note_line 2]\<rparr>) = Inl TypeError"
proof -
  let ?x1 = "example_bsc_line 1 ''  9Alp CMa'' 3.0"
  let ?x2 = "example_bsc_line 2 ''  9Alp CMa'' 4.5"
  let ?src = "no_sources\<lparr>bscCatalog := [?x1, ?x2], bscNotes := [example_note_line 2]\<rparr>"
  let ?s0 = "initialState\<lparr>bsc2fk5 := ((\<lambda>_. None)(1 \<mapsto> 0))(2 := None)\<rparr>"
  have hF: "highestFK5 initialState = 0" "bsc2fk5 initialState = (\<lambda>_. None)"
    by (simp_all add: initialState_def)
  have s2: "afterBrightStars ?src = mergeLine (mergeLine ?s0 ?x1) ?x2"
    by (simp add: afterBrightStars_def no_sources_def processCrossIndex_def
        processYaleBrightStarCatalog_def hF firstScan_pair)
  have "bsc2fk5 (mergeLine ?s0 ?x1) 2 = None"
    by (subst mergeLine_bsc2fk5_other) (simp_all add: example_bsc_line_fields)
  then have "afterBrightStars ?src = mergeLine ?s0 ?x1"
    unfolding s2 by (intro mergeLine_dupe) (simp add: example_bsc_line_fields)
  moreover have "bsc2fk5 (mergeLine ?s0 ?x1) (note_bscNum (example_note_line 2)) = None"
    by (subst mergeLine_bsc2fk5_other) (simp_all add: example_bsc_line_fields example_note_line_fields)
  ultimately have "noteLine (afterBrightStars ?src) (example_note_line 2) = Inl TypeError"
    by (simp add: noteLine_missing [OF example_note_line_fields(1) _ example_note_line_fields(2,3)])
  then show ?thesis
    by (simp add: pipeline_def no_sources_def)
qed

subsection \<open>The Hipparcos rows\<close>

lemma modify_heap:
  "heap s r = Some star \<Longrightarrow> heap (modify r f s) = (heap s)(r \<mapsto> f star)"
  by (simp add: modify_def)

lemma modify_indexes [simp]:
  "bscIndex (modify r f s) = bscIndex s"
  by (simp_all add: modify_def split: option.splits)

lemma hipMatched_found:
  assumes "heap s r = Some star"
  shows "hipMatched s l (Some r) = Inr (modify r (hipUpdate l) s)"
  using assms by (simp add: hipMatched_def)

text \<open>
  C7. A Hipparcos row that passes the guards of the loop and resolves, through its HD
  number, to an existing record (by \<^verbatim>\<open>hd2fk5\<close> and \<^verbatim>\<open>fk5Index\<close>, else by \<^verbatim>\<open>hd2bsc\<close> and
  \<^verbatim>\<open>bscIndex\<close>) does not end the loop and changes exactly that object: its magnitude becomes
  the minimum of the row's magnitude and the previous one, its right ascension,
  declination and proper motions are replaced by the row's values (degrees divided by
  15, and the proper motion in right ascension divided by the cosine of the declination).
  Every index that refers to the object sees the new values.
\<close>

theorem astrometry_override:
  assumes usable: "hipUsable l"
    and resolved: "(hipFK5 s l > 0 \<and> fk5Index s (hipFK5 s l) = Some r) \<or>
                   (hipFK5 s l \<le> 0 \<and> hipBSC s l > 0 \<and> bscIndex s (hipBSC s l) = Some r)"
    and object: "heap s r = Some star"
  shows "\<exists>s'. hipLine s l = Inr (False, s') \<and>
           heap s' = (heap s)(r \<mapsto>
              star\<lparr>vmag := Some (min (hip_vmag l) (case vmag star of None \<Rightarrow> hip_vmag l | Some v \<Rightarrow> v)),
                   RA := Some (hip_ra l / 15), DE := Some (hip_de l),
                   pmRA := Some (hip_pmRA l * 0.0066667 / cos (hip_de l * pi / 180)),
                   pmDE := Some (hip_pmDE l / 10)\<rparr>) \<and>
           fk5Index s' = fk5Index s \<and> bscIndex s' = bscIndex s"
proof -
  let ?count1 = "s\<lparr>fk5UpdatesFromHIP := fk5UpdatesFromHIP s + 1\<rparr>"
  let ?count2 = "s\<lparr>bscUpdatesFromHIP := bscUpdatesFromHIP s + 1\<rparr>"
  from resolved show ?thesis
  proof
    assume a: "hipFK5 s l > 0 \<and> fk5Index s (hipFK5 s l) = Some r"
    have h: "heap ?count1 r = Some star" using object by simp
    show ?thesis
      using usable a
      by (simp add: hipLine_def hipMatched_found [OF h] modify_heap [OF h] hipUpdate_def)
  next
    assume a: "hipFK5 s l \<le> 0 \<and> hipBSC s l > 0 \<and> bscIndex s (hipBSC s l) = Some r"
    have h: "heap ?count2 r = Some star" using object by simp
    show ?thesis
      using usable a
      by (simp add: hipLine_def hipMatched_found [OF h] modify_heap [OF h] hipUpdate_def)
  qed
qed

lemma example_hip_usable: "hipUsable example_hip_line"
  by (simp add: hipUsable_def example_hip_line_def hipParts_def isDataRow_def part_def missing_def
      trim_def char_class_defs)

theorem astrometry_override_witness:
  "hipUsable example_hip_line \<and> hipFK5 example_registry example_hip_line = 257 \<and>
   fk5Index example_registry 257 = Some 0 \<and>
   heap example_registry 0 = Some (emptyStar\<lparr>fk5Num := Some 257, vmag := Some (- 1.46)\<rparr>) \<and>
   (\<exists>s'. hipLine example_registry example_hip_line = Inr (False, s') \<and>
      map_option vmag (starAt s' 257) = Some (Some (- 1.46)) \<and>
      map_option DE (starAt s' 257) = Some (Some (- 16.71314306)))"
proof -
  have f: "hipFK5 example_registry example_hip_line = 257"
    by (simp add: hipFK5_def example_registry_def example_hip_line_def)
  have i: "fk5Index example_registry 257 = Some 0"
    by (simp add: example_registry_def)
  have h: "heap example_registry 0 = Some (emptyStar\<lparr>fk5Num := Some 257, vmag := Some (- 1.46)\<rparr>)"
    by (simp add: example_registry_def)
  have r: "(hipFK5 example_registry example_hip_line > 0 \<and>
            fk5Index example_registry (hipFK5 example_registry example_hip_line) = Some 0) \<or>
           (hipFK5 example_registry example_hip_line \<le> 0 \<and> hipBSC example_registry example_hip_line > 0 \<and>
            bscIndex example_registry (hipBSC example_registry example_hip_line) = Some 0)"
    by (simp add: f i)
  from astrometry_override [OF example_hip_usable r h]
  obtain s' where s': "hipLine example_registry example_hip_line = Inr (False, s')"
    "heap s' 0 = Some (emptyStar\<lparr>fk5Num := Some 257, vmag := Some (- 1.46)\<rparr>
        \<lparr>vmag := Some (min (hip_vmag example_hip_line) (- 1.46)),
         RA := Some (hip_ra example_hip_line / 15), DE := Some (hip_de example_hip_line),
         pmRA := Some (hip_pmRA example_hip_line * 0.0066667 / cos (hip_de example_hip_line * pi / 180)),
         pmDE := Some (hip_pmDE example_hip_line / 10)\<rparr>)"
    "fk5Index s' = fk5Index example_registry"
    by auto
  have "map_option vmag (starAt s' 257) = Some (Some (- 1.46))"
    by (simp add: starAt_def s' i example_hip_line_def)
  moreover have "map_option DE (starAt s' 257) = Some (Some (- 16.71314306))"
    by (simp add: starAt_def s' i example_hip_line_def)
  ultimately show ?thesis using example_hip_usable f i h s'(1) by simp
qed

subsection \<open>Deep-sky records\<close>

lemma noProperMotion_ngcStar: "pmRA (ngcStar l n info ra c) = None \<and> pmDE (ngcStar l n info ra c) = None"
  by (simp add: ngcStar_def emptyStar_def Let_def)

lemma addDeepSkyObject_eq:
  "addDeepSkyObject s star =
     s\<lparr>heap := (heap s)(nextRef s \<mapsto> star), nextRef := Suc (nextRef s),
       totalDSO := totalDSO s + 1,
       fk5Index := (fk5Index s)(highestStar s + (totalDSO s + 1) \<mapsto> nextRef s)\<rparr>"
  by (simp add: addDeepSkyObject_def alloc_def Let_def)

lemma ngcDataLine_shape:
  assumes "ngcDataLine (s, d) l = Inr (s', d')"
  shows "s' = s \<or> (\<exists>n info ra c. s' = addDeepSkyObject s (ngcStar l n info ra c))"
  using assms
  by (simp add: ngcDataLine_def Let_def split: if_splits option.splits) blast+

lemma ngcDataLine_step:
  assumes "ngcDataLine (s, d) l = Inr (s', d')"
  shows "(s' = s) \<or>
         (\<exists>star. pmRA star = None \<and> pmDE star = None \<and> s' = addDeepSkyObject s star)"
  using ngcDataLine_shape [OF assms] noProperMotion_ngcStar by blast

lemma ngcDataLoop_records:
  assumes "ngcDataLoop (s, d) ls = Inr (s', d')"
  shows "highestStar s' = highestStar s \<and> totalDSO s \<le> totalDSO s' \<and> nextRef s \<le> nextRef s' \<and>
         (\<forall>r < nextRef s. heap s' r = heap s r) \<and>
         (\<forall>k \<le> highestStar s + totalDSO s. fk5Index s' k = fk5Index s k) \<and>
         (\<forall>k. highestStar s + totalDSO s < k \<and> k \<le> highestStar s + totalDSO s' \<longrightarrow>
              (\<exists>r star. nextRef s \<le> r \<and> fk5Index s' k = Some r \<and> heap s' r = Some star \<and>
                 pmRA star = None \<and> pmDE star = None))"
  using assms
proof (induction ls arbitrary: s d)
  case Nil
  then show ?case by auto
next
  case (Cons l ls)
  from Cons.prems obtain s1 d1 where
    step: "ngcDataLine (s, d) l = Inr (s1, d1)" and rest: "ngcDataLoop (s1, d1) ls = Inr (s', d')"
    by (auto split: sum.splits)
  note IH = Cons.IH [OF rest]
  from ngcDataLine_step [OF step] show ?case
  proof
    assume "s1 = s"
    with IH show ?thesis by simp
  next
    assume "\<exists>star. pmRA star = None \<and> pmDE star = None \<and> s1 = addDeepSkyObject s star"
    then obtain star where pm: "pmRA star = None" "pmDE star = None"
      and s1: "s1 = s\<lparr>heap := (heap s)(nextRef s \<mapsto> star), nextRef := Suc (nextRef s),
                   totalDSO := totalDSO s + 1,
                   fk5Index := (fk5Index s)(highestStar s + (totalDSO s + 1) \<mapsto> nextRef s)\<rparr>"
      unfolding addDeepSkyObject_eq by blast
    have hs: "highestStar s1 = highestStar s" and td: "totalDSO s1 = totalDSO s + 1"
      and nr: "nextRef s1 = Suc (nextRef s)"
      and hp: "heap s1 = (heap s)(nextRef s \<mapsto> star)"
      and ix: "fk5Index s1 = (fk5Index s)(highestStar s + (totalDSO s + 1) \<mapsto> nextRef s)"
      by (simp_all add: s1)
    from IH have a: "highestStar s' = highestStar s" "totalDSO s + 1 \<le> totalDSO s'"
      "Suc (nextRef s) \<le> nextRef s'"
      and heap': "\<And>r. r < Suc (nextRef s) \<Longrightarrow> heap s' r = heap s1 r"
      and idx': "\<And>k. k \<le> highestStar s + (totalDSO s + 1) \<Longrightarrow> fk5Index s' k = fk5Index s1 k"
      and new': "\<And>k. highestStar s + (totalDSO s + 1) < k \<Longrightarrow> k \<le> highestStar s + totalDSO s' \<Longrightarrow>
              \<exists>r star. Suc (nextRef s) \<le> r \<and> fk5Index s' k = Some r \<and> heap s' r = Some star \<and>
                 pmRA star = None \<and> pmDE star = None"
      by (simp_all add: hs td nr)
    have "\<exists>r star. nextRef s \<le> r \<and> fk5Index s' k = Some r \<and> heap s' r = Some star \<and>
                 pmRA star = None \<and> pmDE star = None"
      if k: "highestStar s + totalDSO s < k" "k \<le> highestStar s + totalDSO s'" for k
    proof (cases "k = highestStar s + (totalDSO s + 1)")
      case True
      have "fk5Index s' k = Some (nextRef s)" using idx' [of k] True by (simp add: ix)
      moreover have "heap s' (nextRef s) = Some star" using heap' [of "nextRef s"] by (simp add: hp)
      ultimately show ?thesis using pm by blast
    next
      case False
      with k have "highestStar s + (totalDSO s + 1) < k" by simp
      from new' [OF this k(2)] show ?thesis by (meson Suc_leD)
    qed
    moreover have "\<forall>r < nextRef s. heap s' r = heap s r"
      using heap' by (simp add: hp)
    moreover have "\<forall>k \<le> highestStar s + totalDSO s. fk5Index s' k = fk5Index s k"
      using idx' by (simp add: ix)
    ultimately show ?thesis using a by simp
  qed
qed

lemma recordItems_pm:
  "recordItems s dp i star ! 6 = Float (Some (case pmRA star of None \<Rightarrow> 0 | Some x \<Rightarrow> x))"
  "recordItems s dp i star ! 7 = Float (Some (case pmDE star of None \<Rightarrow> 0 | Some x \<Rightarrow> x))"
  by (simp_all add: recordItems_def nth_append)

text \<open>
  C10. Every key that \<^verbatim>\<open>processNgcData\<close> adds to the registry holds a record without
  proper-motion fields, and the writer's items 6 and 7 for it (proper motion in right
  ascension and in declination) are the single-precision number 0.
\<close>

theorem ngc_records_zero_proper_motion:
  assumes "processNgcData s ls = Inr s'"
    and "highestStar s + totalDSO s < k" and "k \<le> highestStar s' + totalDSO s'"
  shows "\<exists>star. starAt s' k = Some star \<and> pmRA star = None \<and> pmDE star = None \<and>
           recordItems s' dp k star ! 6 = Float (Some 0) \<and>
           recordItems s' dp k star ! 7 = Float (Some 0)"
proof -
  from assms(1) obtain d' where loop: "ngcDataLoop (s, 0) ls = Inr (s', d')"
    by (cases "ngcDataLoop (s, 0) ls") (auto simp: processNgcData_def)
  from ngcDataLoop_records [OF loop] assms(2,3)
  obtain r star where "fk5Index s' k = Some r" "heap s' r = Some star"
    "pmRA star = None" "pmDE star = None"
    by (metis)
  then show ?thesis
    by (simp add: starAt_def recordItems_pm)
qed

lemma example_ngc_run:
  "processNgcData example_registry [example_divider, example_divider, example_ngc_line] =
     Inr (addDeepSkyObject example_registry
            (ngcStar example_ngc_line 224 None ''00 42.7 +41 16'' ''and''))"
proof -
  have d: "ngcDataLine (s, n) example_divider = Inr (s, Suc n)" for s n
    by (simp add: ngcDataLine_def example_divider_def startsWith_def)
  have parts: "splitOn (CHR ''|'') (nd_text example_ngc_line) =
      ['' 224'', ''Gx '', ''00 42.7 +41 16'', ''s'', ''And'', ''178.'', [], ''4.'', []]"
    by (simp add: example_ngc_line_def)
  have n: "ngcDataLine (example_registry, Suc (Suc 0)) example_ngc_line =
      Inr (addDeepSkyObject example_registry
             (ngcStar example_ngc_line 224 None ''00 42.7 +41 16'' ''and''), Suc (Suc 0))"
    unfolding ngcDataLine_def Let_def parts
    by (simp add: example_ngc_line_def example_registry_def initialState_def startsWith_def
        firstPart_def part_def toLowerCase_def char_class_defs)
  show ?thesis
    by (simp add: processNgcData_def d n)
qed

theorem ngc_records_zero_proper_motion_witness:
  "\<exists>s'. processNgcData example_registry [example_divider, example_divider, example_ngc_line] = Inr s' \<and>
      highestStar example_registry + totalDSO example_registry < 258 \<and>
      258 \<le> highestStar s' + totalDSO s' \<and>
      (\<exists>star. starAt s' 258 = Some star \<and> recordItems s' False 258 star ! 6 = Float (Some 0) \<and>
         recordItems s' False 258 star ! 7 = Float (Some 0))"
proof -
  let ?s' = "addDeepSkyObject example_registry
            (ngcStar example_ngc_line 224 None ''00 42.7 +41 16'' ''and'')"
  have a: "highestStar example_registry + totalDSO example_registry < 258"
    by (simp add: example_registry_def initialState_def)
  have b: "258 \<le> highestStar ?s' + totalDSO ?s'"
    by (simp add: addDeepSkyObject_eq example_registry_def initialState_def)
  from ngc_records_zero_proper_motion [OF example_ngc_run a b, of False]
  show ?thesis using example_ngc_run a b by blast
qed

subsection \<open>A whole run\<close>

text \<open>The run on the example sources.\<close>

lemma fk5_line_eval:
  "trim (fk5_text (example_fk5_line n)) \<noteq> []"
  "\<not> 92 \<le> length (fk5_text (example_fk5_line n))"
  "fk5_fk5Num (example_fk5_line n) = n"
  by (simp_all add: example_fk5_line_def trim_def isSpace_def)

lemma crossIndexLine_example:
  "n \<noteq> 139 \<Longrightarrow> crossIndexLine s (example_fk5_line n) =
     s\<lparr>highestFK5 := max (highestFK5 s) n, highestStar := max (highestFK5 s) n,
       heap := (heap s)(nextRef s \<mapsto> fk5Star (example_fk5_line n)), nextRef := Suc (nextRef s),
       totalFK5 := totalFK5 s + 1, fk5Index := (fk5Index s)(n \<mapsto> nextRef s)\<rparr>"
  by (simp add: crossIndexLine_def Let_def fk5_line_eval alloc_def)

lemma example_stage1:
  "processCrossIndex initialState (crossIndex example_sources) =
     initialState\<lparr>
       heap := (\<lambda>_. None)(0 \<mapsto> fk5Star (example_fk5_line 41), 1 \<mapsto> fk5Star (example_fk5_line 43)),
       nextRef := 2, fk5Index := (\<lambda>_. None)(41 \<mapsto> 0, 43 \<mapsto> 1),
       totalFK5 := 2, highestFK5 := 43, highestStar := 43\<rparr>"
  by (simp add: example_sources_def processCrossIndex_def crossIndexLine_example initialState_def)

lemma example_stage2:
  "afterBrightStars example_sources =
     initialState\<lparr>
       heap := (\<lambda>_. None)
         (0 \<mapsto> fk5Star (example_fk5_line 41),
          1 \<mapsto> fk5Star (example_fk5_line 43),
          2 \<mapsto> (brightStar (example_bsc_line 1 ''   Eps Ori'' 6.4))
                 \<lparr>bscNum := Some 1, flamsteed := Some 0, bayerRank := Some 5,
                  subIndex := Some 0, constellation := Some 60\<rparr>),
       nextRef := 3,
       fk5Index := (\<lambda>_. None)(41 \<mapsto> 0, 43 \<mapsto> 1, 44 \<mapsto> 2),
       bscIndex := (\<lambda>_. None)(1 \<mapsto> 2),
       bsc2fk5 := (\<lambda>_. None)(1 \<mapsto> 44),
       totalFK5 := 2, totalBSC := 1, highestFK5 := 43, highestBSC := 44,
       highestStar := 44, addedStars := 1\<rparr>"
proof -
  let ?l = "example_bsc_line 1 ''   Eps Ori'' 6.4"
  let ?s1 = "initialState\<lparr>
       heap := (\<lambda>_. None)(0 \<mapsto> fk5Star (example_fk5_line 41), 1 \<mapsto> fk5Star (example_fk5_line 43)),
       nextRef := 2, fk5Index := (\<lambda>_. None)(41 \<mapsto> 0, 43 \<mapsto> 1),
       totalFK5 := 2, highestFK5 := 43, highestStar := 43\<rparr>"
  have scan: "fst (firstScan hF (\<lambda>_. None) [example_bsc_line 1 ''   Eps Ori'' v]) = (\<lambda>_. None)(1 \<mapsto> 0)" for v hF
    unfolding firstScan_def foldl.simps
    by (subst scanLine_fresh)
      (simp_all add: eps_fields example_bsc_line_fields initialScan_def)
  have init: "bsc2fk5 initialState = (\<lambda>_. None)" by (simp add: initialState_def)
  have run: "afterBrightStars example_sources = mergeLine (?s1\<lparr>bsc2fk5 := (\<lambda>_. None)(1 \<mapsto> 0)\<rparr>) ?l"
    unfolding afterBrightStars_def example_stage1
    by (simp add: example_sources_def processYaleBrightStarCatalog_def scan init)
  have b: "brightEnough v 1 (bsc_bayerRank (example_bsc_line 1 ''   Eps Ori'' v))" if "v \<le> 13 / 2" for v
    using that by (simp add: brightEnough_def eps_rank)
  have m: "mergeLine (?s1\<lparr>bsc2fk5 := (\<lambda>_. None)(1 \<mapsto> 0)\<rparr>) ?l =
      annotateBrightStar (snd (addBrightStar (?s1\<lparr>bsc2fk5 := (\<lambda>_. None)(1 \<mapsto> 0)\<rparr>) ?l)) ?l 44 2"
    by (subst mergeLine_added [where e = 0])
      (simp_all add: example_bsc_line_fields eps_fields b resolved_example initialState_def)
  show ?thesis
    unfolding run m
    by (simp add: addBrightStar_def annotateBrightStar_def alloc_def modify_def Let_def
        example_bsc_line_fields example_bsc_line_nums eps_fields eps_rank eps_constellation
        initialState_def trim_def isSpace_def fun_upd_twist)
qed

lemma example_run: "pipeline example_sources = Inr example_final"
proof -
  let ?s2 = "afterBrightStars example_sources"
  have src: "bscNotes example_sources = []" "hipparcosData example_sources = []"
    "ngcNames example_sources = []"
    "ngcData example_sources = [example_divider, example_divider, example_ngc_line]"
    by (simp_all add: example_sources_def)
  have d: "ngcDataLine (s, n) example_divider = Inr (s, Suc n)" for s n
    by (simp add: ngcDataLine_def example_divider_def startsWith_def)
  have parts: "splitOn (CHR ''|'') (nd_text example_ngc_line) =
      ['' 224'', ''Gx '', ''00 42.7 +41 16'', ''s'', ''And'', ''178.'', [], ''4.'', []]"
    by (simp add: example_ngc_line_def)
  have n: "ngcs s 224 = None \<Longrightarrow> ngcDataLine (s, Suc (Suc 0)) example_ngc_line =
      Inr (addDeepSkyObject s (ngcStar example_ngc_line 224 None ''00 42.7 +41 16'' ''and''),
           Suc (Suc 0))" for s
    unfolding ngcDataLine_def Let_def parts
    by (simp add: example_ngc_line_def startsWith_def firstPart_def part_def toLowerCase_def
        char_class_defs)
  have p: "pleiades ?s2 = None" "ngcs ?s2 224 = None"
    by (simp_all add: example_stage2 initialState_def)
  have "pipeline example_sources =
      Inr (addDeepSkyObject ?s2 (ngcStar example_ngc_line 224 None ''00 42.7 +41 16'' ''and''))"
    by (simp add: pipeline_def src processHipparcosStarCatalog_def appendPleiades_def p
        processNgcNames_def processNgcData_def d n)
  also have "addDeepSkyObject ?s2 (ngcStar example_ngc_line 224 None ''00 42.7 +41 16'' ''and'') =
      example_final"
    unfolding example_stage2 example_final_def addDeepSkyObject_eq
    by (simp add: initialState_def fun_upd_twist)
  finally show ?thesis .
qed

lemma example_final_fields:
  "highestFK5 example_final = 43" "totalBSC example_final = 1" "totalHIP example_final = 0"
  "totalDSO example_final = 1" "highestStar example_final = 44" "lastKey example_final = 45"
  "fk5Index example_final = (\<lambda>_. None)(41 \<mapsto> 0, 43 \<mapsto> 1, 44 \<mapsto> 2, 45 \<mapsto> 3)"
  by (simp_all add: example_final_def initialState_def lastKey_def)

lemma example_final_stars:
  "starAt example_final 41 = Some (fk5Star (example_fk5_line 41))"
  "starAt example_final 42 = None"
  "starAt example_final 43 = Some (fk5Star (example_fk5_line 43))"
  "starAt example_final 45 = Some (ngcStar example_ngc_line 224 None ''00 42.7 +41 16'' ''and'')"
  "starAt example_final 44 \<noteq> None"
  by (simp_all add: starAt_def example_final_def initialState_def)

subsection \<open>The blocks of keys\<close>

lemma modify_fields [simp]:
  "nextRef (modify r f s) = nextRef s" "hd2fk5 (modify r f s) = hd2fk5 s"
  "hd2bsc (modify r f s) = hd2bsc s" "ngcs (modify r f s) = ngcs s"
  "totalFK5 (modify r f s) = totalFK5 s" "totalHIP (modify r f s) = totalHIP s"
  "totalDSO (modify r f s) = totalDSO s" "highestFK5 (modify r f s) = highestFK5 s"
  "highestBSC (modify r f s) = highestBSC s" "highestHIP (modify r f s) = highestHIP s"
  "highestStar (modify r f s) = highestStar s" "addedStars (modify r f s) = addedStars s"
  "pleiades (modify r f s) = pleiades s"
  by (simp_all add: modify_def split: option.splits)

lemma modify_live [simp]:
  "heap (modify r f s) r' = None \<longleftrightarrow> heap s r' = None"
  "(\<exists>y. heap (modify r f s) r' = Some y) \<longleftrightarrow> (\<exists>y. heap s r' = Some y)"
  by (auto simp add: modify_def split: option.splits)

lemma modify_update_commute [simp]:
  "heap (modify r f (s\<lparr>bsc2fk5 := a, bscIndex := b\<rparr>)) = heap (modify r f s)"
  "heap (modify r f (s\<lparr>bsc2fk5 := a, bscIndex := b, hd2bsc := c\<rparr>)) = heap (modify r f s)"
  by (simp_all add: modify_def split: option.splits)

lemma keysOk_modify [simp]: "keysOk (modify r f s) = keysOk s"
  by (simp add: keysOk_def)

lemma keysOk_annotate [simp]: "keysOk (annotateBrightStar s l k r) = keysOk s"
  by (simp add: annotateBrightStar_def Let_def keysOk_def)

lemma keysOk_lastKey:
  "keysOk s \<Longrightarrow> lastKey s = highestFK5 s + totalBSC s + totalHIP s + totalDSO s"
  "keysOk s \<Longrightarrow> highestStar s = highestFK5 s + totalBSC s + totalHIP s"
  "keysOk s \<Longrightarrow> 0 \<le> totalBSC s \<and> 0 \<le> totalHIP s \<and> 0 \<le> totalDSO s \<and> 0 \<le> highestFK5 s"
  "keysOk s \<Longrightarrow> addedStars s = 0 \<Longrightarrow> totalBSC s = 0 \<and> totalHIP s = 0"
  by (simp_all add: keysOk_def lastKey_def)

lemma keysOk_highest:
  "keysOk s \<Longrightarrow> 0 < totalBSC s \<Longrightarrow> highestBSC s = highestFK5 s + totalBSC s"
  "keysOk s \<Longrightarrow> 0 < totalHIP s \<Longrightarrow> highestHIP s = highestFK5 s + totalBSC s + totalHIP s"
  "keysOk s \<Longrightarrow> totalBSC s = 0 \<Longrightarrow> highestBSC s = 0"
  "keysOk s \<Longrightarrow> totalHIP s = 0 \<Longrightarrow> highestHIP s = 0"
  by (simp_all add: keysOk_def)

lemma keysOk_index:
  "keysOk s \<Longrightarrow> highestFK5 s < k \<Longrightarrow> (fk5Index s k \<noteq> None \<longleftrightarrow> k \<le> lastKey s)"
  "keysOk s \<Longrightarrow> 0 < highestFK5 s \<Longrightarrow> fk5Index s (highestFK5 s) \<noteq> None"
  "keysOk s \<Longrightarrow> fk5Index s k = Some r \<Longrightarrow> heap s r \<noteq> None"
  by (simp_all add: keysOk_def lastKey_def)

lemma grows_refl [simp]: "grows s s"
  by (simp add: grows_def)

lemma grows_trans: "grows s s' \<Longrightarrow> grows s' s'' \<Longrightarrow> grows s s''"
  by (auto simp add: grows_def)

lemma annotate_fields [simp]:
  "highestFK5 (annotateBrightStar s l k r) = highestFK5 s"
  "highestStar (annotateBrightStar s l k r) = highestStar s"
  "totalHIP (annotateBrightStar s l k r) = totalHIP s"
  "totalDSO (annotateBrightStar s l k r) = totalDSO s"
  by (simp_all add: annotateBrightStar_def Let_def)

lemma lastKey_annotate [simp]: "lastKey (annotateBrightStar s l k r) = lastKey s"
  by (simp add: lastKey_def)

lemma grows_annotate [simp]: "grows s0 (annotateBrightStar s l k r) = grows s0 s"
  by (simp add: grows_def)

lemma mergeLine_shape:
  assumes inv: "\<And>s k r. P (annotateBrightStar s l k r) = P s"
    and same: "P s" and added: "P (snd (addBrightStar s l))"
  shows "P (mergeLine s l)"
  using same added
  by (cases "addBrightStar s l")
    (auto simp add: mergeLine_def Let_def inv split: option.splits)

text \<open>Stage 2, one line.\<close>

lemma addBrightStar_inv:
  assumes "keysOk s" "totalHIP s = 0" "totalDSO s = 0"
  shows "keysOk (snd (addBrightStar s l))"
    and "totalHIP (snd (addBrightStar s l)) = 0" and "totalDSO (snd (addBrightStar s l)) = 0"
    and "grows s (snd (addBrightStar s l))"
  using assms
  by (auto simp add: keysOk_def grows_def lastKey_def addBrightStar_def alloc_def Let_def)

lemma mergeLine_inv:
  assumes "keysOk s \<and> totalHIP s = 0 \<and> totalDSO s = 0"
  shows "(keysOk (mergeLine s l) \<and> totalHIP (mergeLine s l) = 0 \<and> totalDSO (mergeLine s l) = 0) \<and>
         grows s (mergeLine s l)"
  by (rule mergeLine_shape) (use assms addBrightStar_inv [of s l] in simp_all)

lemma foldl_mergeLine_inv:
  assumes "keysOk s \<and> totalHIP s = 0 \<and> totalDSO s = 0"
  shows "(keysOk (foldl mergeLine s ls) \<and> totalHIP (foldl mergeLine s ls) = 0 \<and>
          totalDSO (foldl mergeLine s ls) = 0) \<and> grows s (foldl mergeLine s ls)"
  using assms
proof (induction ls arbitrary: s)
  case Nil
  then show ?case by simp
next
  case (Cons l ls)
  from mergeLine_inv [OF Cons.prems, of l]
  have 1: "keysOk (mergeLine s l) \<and> totalHIP (mergeLine s l) = 0 \<and> totalDSO (mergeLine s l) = 0"
    and 2: "grows s (mergeLine s l)" by simp_all
  from Cons.IH [OF 1] 2 show ?case
    by (auto intro: grows_trans)
qed

text \<open>Stage 1.\<close>

lemma keysOk_initial: "keysOk initialState"
  by (simp add: keysOk_def initialState_def)

lemma crossIndexLine_inv:
  assumes "keysOk s \<and> addedStars s = 0 \<and> totalDSO s = 0"
  shows "keysOk (crossIndexLine s l) \<and> addedStars (crossIndexLine s l) = 0 \<and>
         totalDSO (crossIndexLine s l) = 0"
  using assms
  by (auto simp add: keysOk_def crossIndexLine_def alloc_def Let_def max_def)

lemma processCrossIndex_inv:
  assumes "keysOk s \<and> addedStars s = 0 \<and> totalDSO s = 0"
  shows "keysOk (processCrossIndex s ls) \<and> addedStars (processCrossIndex s ls) = 0 \<and>
         totalDSO (processCrossIndex s ls) = 0"
  using assms unfolding processCrossIndex_def
proof (induction ls arbitrary: s)
  case Nil
  then show ?case by simp
next
  case (Cons l ls)
  from Cons.IH [OF crossIndexLine_inv [OF Cons.prems, of l]] show ?case by simp
qed

text \<open>Stage 3 changes names only.\<close>

lemma noteLine_shape:
  assumes "noteLine s l = Inr s'"
  shows "s' = s \<or> (\<exists>r f. s' = modify r f s)"
  using assms
  by (auto simp add: noteLine_def Let_def split: if_splits option.splits)

lemma lastKey_modify [simp]: "lastKey (modify r f s) = lastKey s"
  by (simp add: lastKey_def)

lemma notes_inv:
  assumes "processYaleBrightStarCatalogNotes s ls = Inr s'"
  shows "keysOk s' = keysOk s \<and> fk5Index s' = fk5Index s \<and> highestFK5 s' = highestFK5 s \<and>
         totalBSC s' = totalBSC s \<and> totalHIP s' = totalHIP s \<and> totalDSO s' = totalDSO s \<and>
         lastKey s' = lastKey s"
  using assms
proof (induction ls arbitrary: s)
  case Nil
  then show ?case by simp
next
  case (Cons l ls)
  from Cons.prems obtain s1 where 1: "noteLine s l = Inr s1"
    and 2: "processYaleBrightStarCatalogNotes s1 ls = Inr s'"
    by (auto split: sum.splits)
  from noteLine_shape [OF 1] have "keysOk s1 = keysOk s \<and> fk5Index s1 = fk5Index s \<and>
      highestFK5 s1 = highestFK5 s \<and> totalBSC s1 = totalBSC s \<and> totalHIP s1 = totalHIP s \<and>
      totalDSO s1 = totalDSO s \<and> lastKey s1 = lastKey s"
    by auto
  with Cons.IH [OF 2] show ?case by simp
qed

text \<open>Stage 4.\<close>

lemma hipMatched_shape:
  assumes "hipMatched s l ref = Inr s'"
  shows "\<exists>r. s' = modify r (hipUpdate l) s"
  using assms by (auto simp add: hipMatched_def split: option.splits)

lemma hipLine_shape:
  assumes "hipLine s l = Inr (stop, s')"
  shows "s' = s \<or> (\<exists>r n. s' = modify r (hipUpdate l) (s\<lparr>fk5UpdatesFromHIP := n\<rparr>)) \<or>
         (\<exists>r n. s' = modify r (hipUpdate l) (s\<lparr>bscUpdatesFromHIP := n\<rparr>)) \<or>
         s' = addHipparcosStar s l"
  using assms
  by (auto simp add: hipLine_def split: if_splits sum.splits dest!: hipMatched_shape)

lemma addHipparcosStar_inv:
  assumes "keysOk s \<and> totalDSO s = 0"
  shows "keysOk (addHipparcosStar s l) \<and> totalDSO (addHipparcosStar s l) = 0 \<and>
         totalBSC (addHipparcosStar s l) = totalBSC s \<and> grows s (addHipparcosStar s l)"
  using assms
  by (auto simp add: keysOk_def grows_def lastKey_def addHipparcosStar_def alloc_def Let_def)

lemma counter_inv [simp]:
  "keysOk (s\<lparr>fk5UpdatesFromHIP := n\<rparr>) = keysOk s"
  "keysOk (s\<lparr>bscUpdatesFromHIP := n\<rparr>) = keysOk s"
  "keysOk (s\<lparr>bsc2fk5 := t\<rparr>) = keysOk s"
  "keysOk (s\<lparr>ngcs := g\<rparr>) = keysOk s"
  by (simp_all add: keysOk_def)

lemma grows_modify [simp]: "grows s0 (modify r f s) = grows s0 s"
  by (simp add: grows_def)

lemma grows_counter [simp]:
  "grows s0 (s\<lparr>fk5UpdatesFromHIP := n\<rparr>) = grows s0 s"
  "grows s0 (s\<lparr>bscUpdatesFromHIP := n\<rparr>) = grows s0 s"
  "grows s0 (s\<lparr>bsc2fk5 := t\<rparr>) = grows s0 s"
  "grows s0 (s\<lparr>ngcs := g\<rparr>) = grows s0 s"
  by (simp_all add: grows_def lastKey_def)

lemma hipLine_inv:
  assumes "keysOk s \<and> totalDSO s = 0" and "hipLine s l = Inr (stop, s')"
  shows "(keysOk s' \<and> totalDSO s' = 0) \<and> totalBSC s' = totalBSC s \<and> grows s s'"
  using hipLine_shape [OF assms(2)] assms(1) addHipparcosStar_inv [OF assms(1), of l]
  by auto

lemma hipLoop_inv:
  assumes "keysOk s \<and> totalDSO s = 0" and "hipLoop s ls = Inr s'"
  shows "(keysOk s' \<and> totalDSO s' = 0) \<and> totalBSC s' = totalBSC s \<and> grows s s'"
  using assms
proof (induction ls arbitrary: s)
  case Nil
  then show ?case by simp
next
  case (Cons l ls)
  from Cons.prems(2) obtain stop s1 where 1: "hipLine s l = Inr (stop, s1)"
    and 2: "if stop then s' = s1 else hipLoop s1 ls = Inr s'"
    by (auto split: sum.splits if_splits)
  note step = hipLine_inv [OF Cons.prems(1) 1]
  show ?case
  proof (cases stop)
    case True
    with 2 step show ?thesis by simp
  next
    case False
    with 2 have "hipLoop s1 ls = Inr s'" by simp
    from Cons.IH [OF _ this] step show ?thesis
      by (auto intro: grows_trans)
  qed
qed

lemma appendPleiades_inv:
  assumes "keysOk s \<and> totalDSO s = 0"
  shows "keysOk (appendPleiades s) \<and> totalBSC (appendPleiades s) = totalBSC s \<and>
         totalHIP (appendPleiades s) = totalHIP s \<and> highestStar (appendPleiades s) = highestStar s \<and>
         grows s (appendPleiades s)"
  using assms
  by (auto simp add: keysOk_def grows_def lastKey_def appendPleiades_def Let_def split: option.splits)

text \<open>Stage 5.\<close>

lemma addDeepSkyObject_inv:
  assumes "keysOk s"
  shows "keysOk (addDeepSkyObject s star) \<and> totalBSC (addDeepSkyObject s star) = totalBSC s \<and>
         totalHIP (addDeepSkyObject s star) = totalHIP s \<and>
         highestStar (addDeepSkyObject s star) = highestStar s \<and> grows s (addDeepSkyObject s star)"
  using assms
  by (auto simp add: keysOk_def grows_def lastKey_def addDeepSkyObject_eq)

lemma ngcDataLoop_inv:
  assumes "keysOk s" and "ngcDataLoop (s, d) ls = Inr (s', d')"
  shows "keysOk s' \<and> totalBSC s' = totalBSC s \<and> totalHIP s' = totalHIP s \<and>
         highestStar s' = highestStar s \<and> grows s s'"
  using assms
proof (induction ls arbitrary: s d)
  case Nil
  then show ?case by simp
next
  case (Cons l ls)
  from Cons.prems(2) obtain s1 d1 where
    1: "ngcDataLine (s, d) l = Inr (s1, d1)" and 2: "ngcDataLoop (s1, d1) ls = Inr (s', d')"
    by (auto split: sum.splits)
  from ngcDataLine_shape [OF 1] addDeepSkyObject_inv [OF Cons.prems(1)]
  have step: "keysOk s1 \<and> totalBSC s1 = totalBSC s \<and> totalHIP s1 = totalHIP s \<and>
         highestStar s1 = highestStar s \<and> grows s s1"
    using Cons.prems(1) by auto
  from Cons.IH [OF _ 2] step show ?case
    by (auto intro: grows_trans)
qed

text \<open>The stages in sequence.\<close>

lemma grows_new_keys:
  assumes "keysOk s" "keysOk s'" "grows s s'"
  shows "dom (fk5Index s') - dom (fk5Index s) = {lastKey s <.. lastKey s'}"
    and "dom (fk5Index s) \<subseteq> dom (fk5Index s')"
proof -
  have low: "highestFK5 s \<le> lastKey s" using assms(1) by (simp add: keysOk_def lastKey_def)
  have hF: "highestFK5 s' = highestFK5 s" and le: "lastKey s \<le> lastKey s'"
    and old: "\<And>k. k \<le> lastKey s \<Longrightarrow> fk5Index s' k = fk5Index s k"
    using assms(3) by (simp_all add: grows_def)
  have g: "\<And>k. highestFK5 s < k \<Longrightarrow> (fk5Index s k \<noteq> None \<longleftrightarrow> k \<le> lastKey s)"
    using assms(1) by (simp add: keysOk_def lastKey_def)
  have g': "\<And>k. highestFK5 s < k \<Longrightarrow> (fk5Index s' k \<noteq> None \<longleftrightarrow> k \<le> lastKey s')"
    using assms(2) hF by (simp add: keysOk_def lastKey_def)
  show "dom (fk5Index s') - dom (fk5Index s) = {lastKey s <.. lastKey s'}"
  proof (intro set_eqI iffI)
    fix k assume "k \<in> dom (fk5Index s') - dom (fk5Index s)"
    then have k: "fk5Index s' k \<noteq> None" "fk5Index s k = None" by auto
    with old [of k] have "lastKey s < k" by (cases "k \<le> lastKey s") auto
    moreover from this low g' [of k] k(1) have "k \<le> lastKey s'" by simp
    ultimately show "k \<in> {lastKey s <.. lastKey s'}" by simp
  next
    fix k assume "k \<in> {lastKey s <.. lastKey s'}"
    then have k: "lastKey s < k" "k \<le> lastKey s'" by simp_all
    with low g [of k] g' [of k] show "k \<in> dom (fk5Index s') - dom (fk5Index s)"
      by (auto simp: dom_def)
  qed
  show "dom (fk5Index s) \<subseteq> dom (fk5Index s')"
  proof
    fix k assume "k \<in> dom (fk5Index s)"
    then have k: "fk5Index s k \<noteq> None" by auto
    have "k \<le> lastKey s"
    proof (rule ccontr)
      assume "\<not> k \<le> lastKey s"
      with low g [of k] k show False by simp
    qed
    with old [of k] k show "k \<in> dom (fk5Index s')" by (auto simp: dom_def)
  qed
qed

lemma after_cross_index:
  "keysOk (processCrossIndex initialState ls) \<and> addedStars (processCrossIndex initialState ls) = 0 \<and>
   totalDSO (processCrossIndex initialState ls) = 0"
  by (rule processCrossIndex_inv) (simp add: keysOk_initial, simp add: initialState_def)

lemma after_bright_stars:
  "keysOk (afterBrightStars src) \<and> totalHIP (afterBrightStars src) = 0 \<and>
   totalDSO (afterBrightStars src) = 0 \<and>
   grows (processCrossIndex initialState (crossIndex src)) (afterBrightStars src)"
proof -
  let ?s1 = "processCrossIndex initialState (crossIndex src)"
  let ?t = "fst (firstScan (highestFK5 ?s1) (bsc2fk5 ?s1) (bscCatalog src))"
  from after_cross_index [of "crossIndex src"]
  have 1: "keysOk ?s1" "addedStars ?s1 = 0" "totalDSO ?s1 = 0" by simp_all
  then have "totalHIP ?s1 = 0" using keysOk_lastKey(4) by simp
  with 1 have "keysOk (?s1\<lparr>bsc2fk5 := ?t\<rparr>) \<and> totalHIP (?s1\<lparr>bsc2fk5 := ?t\<rparr>) = 0 \<and>
      totalDSO (?s1\<lparr>bsc2fk5 := ?t\<rparr>) = 0" by simp
  from foldl_mergeLine_inv [OF this, of "bscCatalog src"]
  show ?thesis
    by (simp add: afterBrightStars_def processYaleBrightStarCatalog_def grows_def lastKey_def)
qed

lemma pipeline_stages:
  assumes "pipeline src = Inr s"
  shows "\<exists>s3 s4 d.
     processYaleBrightStarCatalogNotes (afterBrightStars src) (bscNotes src) = Inr s3 \<and>
     hipLoop s3 (hipparcosData src) = Inr s4 \<and>
     ngcDataLoop (processNgcNames (appendPleiades s4) (ngcNames src), 0) (ngcData src) = Inr (s, d)"
  using assms
  by (auto simp add: pipeline_def processHipparcosStarCatalog_def processNgcData_def
      split: sum.splits)

lemma union_of_differences:
  "A \<subseteq> B \<Longrightarrow> B - A = X \<Longrightarrow> B \<subseteq> E \<Longrightarrow> E - B = Y \<Longrightarrow> E \<subseteq> F \<Longrightarrow> F - E = Z \<Longrightarrow>
   F = A \<union> X \<union> Y \<union> Z"
  by blast

lemma pipeline_facts:
  assumes "pipeline src = Inr s"
  shows "\<exists>s3 s4.
     processYaleBrightStarCatalogNotes (afterBrightStars src) (bscNotes src) = Inr s3 \<and>
     hipLoop s3 (hipparcosData src) = Inr s4 \<and>
     keysOk s3 \<and> keysOk s4 \<and> keysOk s \<and>
     fk5Index s3 = fk5Index (afterBrightStars src) \<and>
     grows s3 s4 \<and> grows s4 s \<and>
     lastKey s3 = highestFK5 s + totalBSC s \<and>
     lastKey s4 = highestFK5 s + totalBSC s + totalHIP s \<and>
     highestStar s = highestFK5 s + totalBSC s + totalHIP s \<and>
     highestFK5 (processCrossIndex initialState (crossIndex src)) = highestFK5 s"
proof -
  let ?s1 = "processCrossIndex initialState (crossIndex src)"
  let ?s2 = "afterBrightStars src"
  from pipeline_stages [OF assms] obtain s3 s4 d where
    n: "processYaleBrightStarCatalogNotes ?s2 (bscNotes src) = Inr s3"
    and h: "hipLoop s3 (hipparcosData src) = Inr s4"
    and g: "ngcDataLoop (processNgcNames (appendPleiades s4) (ngcNames src), 0) (ngcData src) = Inr (s, d)"
    by blast
  from after_bright_stars [of src]
  have 2: "keysOk ?s2" "totalHIP ?s2 = 0" "totalDSO ?s2 = 0" "grows ?s1 ?s2" by simp_all
  from notes_inv [OF n] 2
  have 3: "keysOk s3" "fk5Index s3 = fk5Index ?s2" "highestFK5 s3 = highestFK5 ?s2"
    "totalBSC s3 = totalBSC ?s2" "totalHIP s3 = 0" "totalDSO s3 = 0" "lastKey s3 = lastKey ?s2"
    by simp_all
  from hipLoop_inv [OF _ h] 3
  have 4: "keysOk s4" "totalDSO s4 = 0" "totalBSC s4 = totalBSC s3" "grows s3 s4" by simp_all
  let ?p = "appendPleiades s4"
  from appendPleiades_inv [of s4] 4
  have p: "keysOk ?p" "totalBSC ?p = totalBSC s4" "totalHIP ?p = totalHIP s4"
    "highestStar ?p = highestStar s4" "grows s4 ?p" by simp_all
  let ?q = "processNgcNames ?p (ngcNames src)"
  have q: "keysOk ?q" "totalBSC ?q = totalBSC s4" "totalHIP ?q = totalHIP s4"
    "highestStar ?q = highestStar s4" "grows s4 ?q"
    using p by (simp_all add: processNgcNames_def)
  from ngcDataLoop_inv [OF q(1) g] q
  have 5: "keysOk s" "totalBSC s = totalBSC s4" "totalHIP s = totalHIP s4"
    "highestStar s = highestStar s4" "grows s4 s"
    by (auto intro: grows_trans)
  have hF: "highestFK5 ?s2 = highestFK5 ?s1" "highestFK5 s4 = highestFK5 s3" "highestFK5 s = highestFK5 s4"
    using 2(4) 4(4) 5(5) by (simp_all add: grows_def)
  have l3: "lastKey s3 = highestFK5 s + totalBSC s"
    using keysOk_lastKey(1) [OF 3(1)] 3(5,6) 4(3) 5(2) hF by simp
  have l4: "lastKey s4 = highestFK5 s + totalBSC s + totalHIP s"
    using keysOk_lastKey(1) [OF 4(1)] 4(2) 5(2,3) hF by simp
  have hs: "highestStar s = highestFK5 s + totalBSC s + totalHIP s"
    by (rule keysOk_lastKey(2) [OF 5(1)])
  have f1: "highestFK5 ?s1 = highestFK5 s"
    using hF 3(3) by simp
  show ?thesis
    using n h 3(1) 4(1) 5(1) 3(2) 4(4) 5(5) l3 l4 hs f1
    by (intro exI [of _ s3] exI [of _ s4] conjI) assumption+
qed

text \<open>
  C1. After a run of the five stages, the keys of the registry are those of the primary
  catalogue, all at most \<^verbatim>\<open>highestFK5\<close>, then the keys added by the bright-star stage, then
  those added by the Hipparcos loop, then those of the deep-sky objects (the Pleiades
  entry and the NGC data): each of the three later blocks is the full interval of
  integers that follows the block before it, of length \<^verbatim>\<open>totalBSC\<close>, \<^verbatim>\<open>totalHIP\<close> and
  \<^verbatim>\<open>totalDSO\<close>, and no stage removes a key.
\<close>

theorem key_blocks:
  assumes "pipeline src = Inr s"
  shows "\<exists>s3 s4.
     processYaleBrightStarCatalogNotes (afterBrightStars src) (bscNotes src) = Inr s3 \<and>
     hipLoop s3 (hipparcosData src) = Inr s4 \<and>
     (let s1 = processCrossIndex initialState (crossIndex src);
          s2 = afterBrightStars src;
          hF = highestFK5 s; hB = hF + totalBSC s; hS = hB + totalHIP s; hD = hS + totalDSO s
      in dom (fk5Index s1) \<subseteq> {..hF} \<and>
         dom (fk5Index s2) - dom (fk5Index s1) = {hF<..hB} \<and>
         dom (fk5Index s3) = dom (fk5Index s2) \<and>
         dom (fk5Index s4) - dom (fk5Index s3) = {hB<..hS} \<and>
         dom (fk5Index s) - dom (fk5Index s4) = {hS<..hD} \<and>
         dom (fk5Index s) = dom (fk5Index s1) \<union> {hF<..hB} \<union> {hB<..hS} \<union> {hS<..hD} \<and>
         hF \<le> hB \<and> hB \<le> hS \<and> hS \<le> hD \<and>
         highestFK5 s1 = hF \<and> highestStar s = hS \<and> lastKey s = hD \<and>
         (0 < totalBSC s \<longrightarrow> highestBSC s = hB) \<and> (0 < totalHIP s \<longrightarrow> highestHIP s = hS))"
proof -
  let ?s1 = "processCrossIndex initialState (crossIndex src)"
  let ?s2 = "afterBrightStars src"
  from pipeline_facts [OF assms] obtain s3 s4 where
    n: "processYaleBrightStarCatalogNotes ?s2 (bscNotes src) = Inr s3"
    and h: "hipLoop s3 (hipparcosData src) = Inr s4"
    and ok: "keysOk s3" "keysOk s4" "keysOk s"
    and i3: "fk5Index s3 = fk5Index ?s2"
    and gr: "grows s3 s4" "grows s4 s"
    and l3: "lastKey s3 = highestFK5 s + totalBSC s"
    and l4: "lastKey s4 = highestFK5 s + totalBSC s + totalHIP s"
    and hs: "highestStar s = highestFK5 s + totalBSC s + totalHIP s"
    and hF: "highestFK5 ?s1 = highestFK5 s"
    by blast
  from after_cross_index [of "crossIndex src"]
  have 1: "keysOk ?s1" "addedStars ?s1 = 0" "totalDSO ?s1 = 0" by simp_all
  then have l1: "lastKey ?s1 = highestFK5 s"
    using hF keysOk_lastKey(1) [OF 1(1)] keysOk_lastKey(4) [OF 1(1)] by simp
  from after_bright_stars [of src]
  have 2: "keysOk ?s2" "totalHIP ?s2 = 0" "totalDSO ?s2 = 0" "grows ?s1 ?s2" by simp_all
  have l2: "lastKey ?s2 = highestFK5 s + totalBSC s"
    using notes_inv [OF n] l3 by simp
  have P: "dom (fk5Index ?s1) \<subseteq> {..highestFK5 s}"
  proof
    fix k assume "k \<in> dom (fk5Index ?s1)"
    then have "fk5Index ?s1 k \<noteq> None" by auto
    with keysOk_index(1) [OF 1(1), of k] l1 hF show "k \<in> {..highestFK5 s}"
      by (cases "highestFK5 s < k") auto
  qed
  note B = grows_new_keys [OF 1(1) 2(1) 2(4), unfolded l1 l2]
  note H = grows_new_keys [OF ok(1) ok(2) gr(1), unfolded l3 l4]
  note D = grows_new_keys [OF ok(2) ok(3) gr(2), unfolded l4]
  have ld: "lastKey s = highestFK5 s + totalBSC s + totalHIP s + totalDSO s"
    using hs by (simp add: lastKey_def)
  have nonneg: "0 \<le> totalBSC s" "0 \<le> totalHIP s" "0 \<le> totalDSO s"
    using keysOk_lastKey(3) [OF ok(3)] by simp_all
  have hb: "0 < totalBSC s \<longrightarrow> highestBSC s = highestFK5 s + totalBSC s"
    and hh: "0 < totalHIP s \<longrightarrow> highestHIP s = highestFK5 s + totalBSC s + totalHIP s"
    using keysOk_highest(1,2) [OF ok(3)] by simp_all
  have U: "dom (fk5Index s) = dom (fk5Index ?s1) \<union> {highestFK5 s<..highestFK5 s + totalBSC s} \<union>
      {highestFK5 s + totalBSC s<..highestFK5 s + totalBSC s + totalHIP s} \<union>
      {highestFK5 s + totalBSC s + totalHIP s<..highestFK5 s + totalBSC s + totalHIP s + totalDSO s}"
    using union_of_differences [OF B(2) B(1) _ _ D(2) D(1), of "{highestFK5 s + totalBSC s<..highestFK5 s + totalBSC s + totalHIP s}"]
      H i3 unfolding ld by simp
  have i3': "dom (fk5Index s3) = dom (fk5Index ?s2)" using i3 by simp
  have H': "dom (fk5Index s4) - dom (fk5Index s3) =
      {highestFK5 s + totalBSC s<..highestFK5 s + totalBSC s + totalHIP s}" by (rule H(1))
  have D': "dom (fk5Index s) - dom (fk5Index s4) =
      {highestFK5 s + totalBSC s + totalHIP s<..highestFK5 s + totalBSC s + totalHIP s + totalDSO s}"
    using D(1) unfolding ld .
  have o1: "highestFK5 s \<le> highestFK5 s + totalBSC s" using nonneg by simp
  have o2: "highestFK5 s + totalBSC s \<le> highestFK5 s + totalBSC s + totalHIP s" using nonneg by simp
  have o3: "highestFK5 s + totalBSC s + totalHIP s \<le> highestFK5 s + totalBSC s + totalHIP s + totalDSO s"
    using nonneg by simp
  show ?thesis
    unfolding Let_def
    using n h P B(1) i3' H' D' U o1 o2 o3 hF hs ld hb hh
    by (intro exI [of _ s3] exI [of _ s4] conjI) assumption+
qed

theorem key_blocks_witness:
  "pipeline example_sources = Inr example_final \<and>
   dom (fk5Index (processCrossIndex initialState (crossIndex example_sources))) = {41, 43} \<and>
   dom (fk5Index (afterBrightStars example_sources)) -
     dom (fk5Index (processCrossIndex initialState (crossIndex example_sources))) = {44} \<and>
   dom (fk5Index example_final) = {41, 43} \<union> {44} \<union> {} \<union> {45}"
proof -
  have d1: "dom (fk5Index (processCrossIndex initialState (crossIndex example_sources))) = {41, 43}"
    unfolding example_stage1 by (auto split: if_splits)
  have iv: "{43<..44} = {44::int}" "{44<..44} = ({}::int set)" "{44<..45} = {45::int}"
    by auto
  from key_blocks [OF example_run]
  show ?thesis
    unfolding Let_def example_final_fields d1
    using example_run d1 by (auto simp add: iv)
qed

subsection \<open>The writer\<close>

lemma writeKey_gap:
  "starAt s i = None \<Longrightarrow> i \<le> highestFK5 s \<Longrightarrow> writeKey s dp w i = Inr (w\<lparr>gapSize := gapSize w + 1\<rparr>)"
  by (simp add: writeKey_def)

lemma writeItems_eq:
  "writeItems file xs = (if list_all accepted xs then Inr (file @ xs) else Inl RangeError)"
  by (induction xs arbitrary: "file") simp_all

lemma writeKey_record:
  "starAt s i = Some star \<Longrightarrow> list_all accepted (markerItems s i @ recordItems s dp i star) \<Longrightarrow>
   \<exists>w'. writeKey s dp w i = Inr w' \<and> gapSize w' = 0 \<and>
     written w' = written w @ replicate (gapSize w) (UInt8 (Some 0xFF)) @ markerItems s i @
       recordItems s dp i star"
  by (simp add: writeKey_def Let_def writeItems_eq)

lemma writeKey_rejected:
  "starAt s i = Some star \<Longrightarrow> \<not> list_all accepted (markerItems s i @ recordItems s dp i star) \<Longrightarrow>
   writeKey s dp w i = Inl RangeError"
  by (simp add: writeKey_def Let_def writeItems_eq)

lemma keyItems_simps:
  "starAt s i = None \<Longrightarrow> keyItems s dp i = [UInt8 (Some 0xFF)]"
  "starAt s i = Some star \<Longrightarrow> keyItems s dp i = markerItems s i @ recordItems s dp i star"
  by (simp_all add: keyItems_def)

lemma writeLoop_output:
  assumes "\<forall>i \<in> set ks. starAt s i = None \<longrightarrow> i \<le> highestFK5 s"
    and "list_all (\<lambda>i. list_all accepted (keyItems s dp i)) ks"
  shows "\<exists>w'. writeLoop s dp w ks = Inr w' \<and>
           written w' @ replicate (gapSize w') (UInt8 (Some 0xFF)) =
             written w @ replicate (gapSize w) (UInt8 (Some 0xFF)) @ concat (map (keyItems s dp) ks) \<and>
           (ks \<noteq> [] \<and> starAt s (last ks) \<noteq> None \<longrightarrow> gapSize w' = 0) \<and>
           (ks = [] \<longrightarrow> w' = w)"
  using assms
proof (induction ks arbitrary: w)
  case Nil
  then show ?case by simp
next
  case (Cons i ks)
  let ?FF = "UInt8 (Some 0xFF)"
  have rest: "\<forall>i \<in> set ks. starAt s i = None \<longrightarrow> i \<le> highestFK5 s"
    using Cons.prems by simp
  have fit: "list_all (\<lambda>i. list_all accepted (keyItems s dp i)) ks"
    using Cons.prems by simp
  show ?case
  proof (cases "starAt s i")
    case None
    let ?w1 = "w\<lparr>gapSize := gapSize w + 1\<rparr>"
    from None Cons.prems have k: "writeKey s dp w i = Inr ?w1"
      by (simp add: writeKey_gap)
    from Cons.IH [OF rest fit, of ?w1]
    obtain w' where run: "writeLoop s dp ?w1 ks = Inr w'"
      and out: "written w' @ replicate (gapSize w') ?FF =
         written ?w1 @ replicate (gapSize ?w1) ?FF @ concat (map (keyItems s dp) ks)"
      and gap: "ks \<noteq> [] \<and> starAt s (last ks) \<noteq> None \<longrightarrow> gapSize w' = 0"
      by blast
    have 1: "writeLoop s dp w (i # ks) = Inr w'"
      using k run by simp
    have "replicate (gapSize ?w1) ?FF = replicate (gapSize w) ?FF @ [?FF]"
      by (simp add: replicate_append_same)
    then have 2: "written w' @ replicate (gapSize w') ?FF =
        written w @ replicate (gapSize w) ?FF @ concat (map (keyItems s dp) (i # ks))"
      using out by (simp add: keyItems_simps(1) [OF None])
    have 3: "(i # ks) \<noteq> [] \<and> starAt s (last (i # ks)) \<noteq> None \<longrightarrow> gapSize w' = 0"
      using gap None by (cases "ks = []") simp_all
    from 1 2 3 show ?thesis by blast
  next
    case (Some star)
    from Cons.prems(2) Some have "list_all accepted (markerItems s i @ recordItems s dp i star)"
      by (simp add: keyItems_simps(2))
    from writeKey_record [OF Some this, of w] obtain w1 where
      k: "writeKey s dp w i = Inr w1" and g1: "gapSize w1 = 0"
      and o1: "written w1 = written w @ replicate (gapSize w) ?FF @ markerItems s i @
         recordItems s dp i star"
      by blast
    from Cons.IH [OF rest fit, of w1]
    obtain w' where run: "writeLoop s dp w1 ks = Inr w'"
      and out: "written w' @ replicate (gapSize w') ?FF =
         written w1 @ replicate (gapSize w1) ?FF @ concat (map (keyItems s dp) ks)"
      and gap: "ks \<noteq> [] \<and> starAt s (last ks) \<noteq> None \<longrightarrow> gapSize w' = 0"
      and nil: "ks = [] \<longrightarrow> w' = w1"
      by blast
    have 1: "writeLoop s dp w (i # ks) = Inr w'"
      using k run by simp
    have 2: "written w' @ replicate (gapSize w') ?FF =
        written w @ replicate (gapSize w) ?FF @ concat (map (keyItems s dp) (i # ks))"
      using out g1 o1 by (simp add: keyItems_simps(2) [OF Some])
    have 3: "(i # ks) \<noteq> [] \<and> starAt s (last (i # ks)) \<noteq> None \<longrightarrow> gapSize w' = 0"
      using gap nil g1 by (cases "ks = []") simp_all
    from 1 2 3 show ?thesis by blast
  qed
qed

lemma writeLoop_rejected:
  assumes "\<forall>i \<in> set ks. starAt s i = None \<longrightarrow> i \<le> highestFK5 s"
    and "\<not> list_all (\<lambda>i. list_all accepted (keyItems s dp i)) ks"
  shows "writeLoop s dp w ks = Inl RangeError"
  using assms
proof (induction ks arbitrary: w)
  case Nil
  then show ?case by simp
next
  case (Cons i ks)
  have rest: "\<forall>i \<in> set ks. starAt s i = None \<longrightarrow> i \<le> highestFK5 s"
    using Cons.prems by simp
  show ?case
  proof (cases "starAt s i")
    case None
    with Cons.prems have k: "writeKey s dp w i = Inr (w\<lparr>gapSize := gapSize w + 1\<rparr>)"
      by (simp add: writeKey_gap)
    from None Cons.prems(2) have "\<not> list_all (\<lambda>i. list_all accepted (keyItems s dp i)) ks"
      by (simp add: keyItems_simps(1))
    from Cons.IH [OF rest this] k show ?thesis by simp
  next
    case (Some star)
    show ?thesis
    proof (cases "list_all accepted (markerItems s i @ recordItems s dp i star)")
      case False
      from writeKey_rejected [OF Some False] show ?thesis by simp
    next
      case True
      from writeKey_record [OF Some True, of w] obtain w1 where
        k: "writeKey s dp w i = Inr w1" by blast
      from True Some Cons.prems(2)
      have "\<not> list_all (\<lambda>i. list_all accepted (keyItems s dp i)) ks"
        by (simp add: keyItems_simps(2))
      from Cons.IH [OF rest this] k show ?thesis by simp
    qed
  qed
qed

text \<open>The writer on a state with the invariants.\<close>

lemma starAt_index: "keysOk s \<Longrightarrow> starAt s k = None \<longleftrightarrow> fk5Index s k = None"
  using keysOk_index(3) [of s k] by (auto simp add: starAt_def split: option.splits)

lemma writer_keys:
  assumes "keysOk s"
  shows "\<forall>i \<in> set [1..lastKey s]. starAt s i = None \<longrightarrow> i \<le> highestFK5 s"
proof -
  have "starAt s k \<noteq> None" if "highestFK5 s < k" "k \<le> lastKey s" for k
    using keysOk_index(1) [OF assms that(1)] that(2) starAt_index [OF assms] by simp
  then show ?thesis by force
qed

lemma writer_rejected:
  assumes "keysOk s" and "\<not> writable s dp"
  shows "writeStarCatalog s dp = Inl RangeError"
  using writeLoop_rejected [OF writer_keys [OF assms(1)]] assms(2)
  by (simp add: writeStarCatalog_def writable_def)

lemma writer_output:
  assumes "keysOk s" and fit: "writable s dp"
  shows "\<exists>w. writeStarCatalog s dp = Inr w \<and> gapSize w = 0 \<and>
           written w = (if dp then [UInt8 (Some 0xFD)] else []) @
             concat (map (keyItems s dp) [1..lastKey s])"
proof -
  let ?w0 = "\<lparr>gapSize = 0, written = (if dp then [UInt8 (Some 0xFD)] else []), missingFK5 = 0, total = 0\<rparr>"
  note ok = assms(1)
  have present: "starAt s k \<noteq> None" if "highestFK5 s < k" "k \<le> lastKey s" for k
    using keysOk_index(1) [OF ok that(1)] that(2) starAt_index [OF ok] by simp
  note safe = writer_keys [OF ok]
  from writeLoop_output [OF safe fit [unfolded writable_def], of ?w0]
  obtain w where run: "writeLoop s dp ?w0 [1..lastKey s] = Inr w"
    and out: "written w @ replicate (gapSize w) (UInt8 (Some 0xFF)) =
       written ?w0 @ replicate (gapSize ?w0) (UInt8 (Some 0xFF)) @
       concat (map (keyItems s dp) [1..lastKey s])"
    and gap: "[1..lastKey s] \<noteq> [] \<and> starAt s (last [1..lastKey s]) \<noteq> None \<longrightarrow> gapSize w = 0"
    and nil: "[1..lastKey s] = [] \<longrightarrow> w = ?w0"
    by blast
  have g: "gapSize w = 0"
  proof (cases "1 \<le> lastKey s")
    case False
    then have "[1..lastKey s] = []" by simp
    with nil show ?thesis by simp
  next
    case True
    then have ne: "[1..lastKey s] \<noteq> []" and la: "last [1..lastKey s] = lastKey s"
      by (simp_all add: upto_rec2)
    have "starAt s (lastKey s) \<noteq> None"
    proof (cases "highestFK5 s < lastKey s")
      case True
      then show ?thesis using present by simp
    next
      case False
      moreover have "highestFK5 s \<le> lastKey s"
        using keysOk_lastKey(1,3) [OF ok] by simp
      ultimately have eq: "lastKey s = highestFK5 s" by simp
      with True keysOk_index(2) [OF ok] starAt_index [OF ok, of "highestFK5 s"]
      show ?thesis by simp
    qed
    with gap ne la show ?thesis by simp
  qed
  with run out show ?thesis
    by (simp add: writeStarCatalog_def)
qed

lemma pipeline_keysOk: "pipeline src = Inr s \<Longrightarrow> keysOk s"
  using pipeline_facts by blast

text \<open>
  After a run of the five stages the writer ends in one of two ways: with the whole
  output, or with a \<^verbatim>\<open>RangeError\<close> when a value does not fit its width.
\<close>

lemma writer_result:
  assumes "pipeline src = Inr s"
  shows "if writable s dp
         then \<exists>w. writeStarCatalog s dp = Inr w \<and>
                written w = (if dp then [UInt8 (Some 0xFD)] else []) @
                  concat (map (keyItems s dp) [1..lastKey s])
         else writeStarCatalog s dp = Inl RangeError"
  using writer_output [OF pipeline_keysOk [OF assms], of dp]
    writer_rejected [OF pipeline_keysOk [OF assms], of dp]
  by (cases "writable s dp") auto

lemma compressMag_accepted: "accepted (UInt8 (compressMag v))"
  by (simp add: compressMag_def writer_byte_cases split: double.splits)

lemma magByte_accepted:
  "accepted (UInt8 (case x of None \<Rightarrow> None | Some v \<Rightarrow> compressMag v))"
  by (cases x) (simp_all add: compressMag_accepted)

lemma recordItems_accepted:
  "list_all accepted (recordItems s dp i star) \<longleftrightarrow>
     accepted (UInt8 (flamsteed star)) \<and> accepted (UInt8 (bayerRank star)) \<and>
     accepted (UInt8 (subIndex star)) \<and> accepted (UInt8 (constellation star)) \<and>
     list_all accepted (trailerItems s i star) \<and> list_all accepted (nameItems star)"
  by (simp add: recordItems_def magByte_accepted)

lemma markerItems_accepted: "list_all accepted (markerItems s i)"
  by (simp add: markerItems_def)

lemma example_fk5Star:
  "flamsteed (fk5Star (example_fk5_line n)) = Some 0"
  "bayerRank (fk5Star (example_fk5_line n)) = Some 0"
  "subIndex (fk5Star (example_fk5_line n)) = Some 0"
  "constellation (fk5Star (example_fk5_line n)) = Some 0"
  "name (fk5Star (example_fk5_line n)) = None"
  by (simp_all add: fk5Star_def fk5Designation_def fk5Name_def Let_def emptyStar_def
          example_fk5_line_def substring_def substringFrom_def trim_def isSpace_def toLowerCase_def
          constellationCodes_def)

lemma example_ngcStar:
  "flamsteed (ngcStar example_ngc_line 224 None ra ''and'') = None"
  "bayerRank (ngcStar example_ngc_line 224 None ra ''and'') = None"
  "subIndex (ngcStar example_ngc_line 224 None ra ''and'') = None"
  "constellation (ngcStar example_ngc_line 224 None ra ''and'') = Some 1"
  "name (ngcStar example_ngc_line 224 None ra ''and'') = None"
  "ngcIcNum (ngcStar example_ngc_line 224 None ra ''and'') = Some 224"
  "messierNum (ngcStar example_ngc_line 224 None ra ''and'') = Some 0"
  by (simp_all add: ngcStar_def Let_def emptyStar_def constellationCodes_def)

lemma example_final_writable: "writable example_final False"
proof -
  have f: "highestBSC example_final = 44" "highestStar example_final = 44"
    "highestFK5 example_final = 43"
    by (simp_all add: example_final_def initialState_def)
  have "list_all accepted (keyItems example_final False i)" for i
  proof (cases "i \<in> {41, 43, 44, 45}")
    case False
    then have "starAt example_final i = None"
      by (simp add: starAt_def example_final_fields)
    then show ?thesis by (simp add: keyItems_simps(1))
  next
    case True
    have 1: "starAt example_final 44 = Some ((brightStar (example_bsc_line 1 ''   Eps Ori'' 6.4))
            \<lparr>bscNum := Some 1, flamsteed := Some 0, bayerRank := Some 5,
             subIndex := Some 0, constellation := Some 60\<rparr>)"
      by (simp add: starAt_def example_final_def initialState_def)
    have 2: "name (brightStar l) = None" for l
      by (simp add: brightStar_def Let_def emptyStar_def)
    from True consider "i = 41" | "i = 43" | "i = 44" | "i = 45" by auto
    then show ?thesis
    proof cases
      case 1
      then show ?thesis
        by (simp add: keyItems_simps(2) [OF example_final_stars(1)] markerItems_accepted
            recordItems_accepted example_fk5Star trailerItems_def nameItems_def f)
    next
      case 2
      then show ?thesis
        by (simp add: keyItems_simps(2) [OF example_final_stars(3)] markerItems_accepted
            recordItems_accepted example_fk5Star trailerItems_def nameItems_def f)
    next
      case 3
      then show ?thesis
        by (simp add: keyItems_simps(2) [OF 1] markerItems_accepted
            recordItems_accepted trailerItems_def nameItems_def f 2)
    next
      case 4
      then show ?thesis
        by (simp add: keyItems_simps(2) [OF example_final_stars(4)] markerItems_accepted
            recordItems_accepted example_ngcStar trailerItems_def nameItems_def f)
    qed
  qed
  then show ?thesis
    by (simp add: writable_def list_all_iff)
qed

text \<open>A Flamsteed number of 300 stops the writer.\<close>

lemma writeKey_flamsteed_overflow:
  assumes "starAt s i = Some star" and "flamsteed star = Some 300"
  shows "writeKey s dp w i = Inl RangeError"
  using writeKey_rejected [OF assms(1), of dp w] assms(2)
  by (simp add: recordItems_accepted)

lemma markerItems_count:
  assumes "keysOk s"
  shows "markerItems s i = replicate (spec_markerCount s i) (UInt8 (Some 0xFE))"
proof -
  note n = keysOk_lastKey(3) [OF assms]
  have hs: "highestStar s = highestFK5 s + totalBSC s + totalHIP s"
    by (rule keysOk_lastKey(2) [OF assms])
  have hb: "highestBSC s > 0 \<longleftrightarrow> 0 < totalBSC s"
    "0 < totalBSC s \<Longrightarrow> highestBSC s = highestFK5 s + totalBSC s"
    using keysOk_highest(1,3) [OF assms] n by (cases "totalBSC s = 0"; simp)+
  have hh: "highestHIP s = 0 \<longleftrightarrow> totalHIP s = 0"
    using keysOk_highest(2,4) [OF assms] n by (cases "totalHIP s = 0") simp_all
  show ?thesis
    unfolding markerItems_def spec_markerCount_def Let_def hs hh
    using hb by (auto simp add: numeral_2_eq_2)
qed

text \<open>
  C5. After a run of the five stages, and when every value written fits its width (else
  the writer stops with a \<^verbatim>\<open>RangeError\<close>), the writer succeeds, and its output is the
  optional precision byte followed, key by key from 1 to the last key, by one byte
  \<^verbatim>\<open>0xFF\<close> for a key without a record and by the markers and the record for a key with
  one. Every key without a record lies in the primary block. With records at 41 and 43 and
  none at 42, the output has exactly one \<^verbatim>\<open>0xFF\<close> between the record of 41 and the record
  of 43.
\<close>

theorem gap_bytes:
  assumes "pipeline src = Inr s" and "writable s dp"
  shows "\<exists>w. writeStarCatalog s dp = Inr w \<and>
     written w = (if dp then [UInt8 (Some 0xFD)] else []) @
       concat (map (keyItems s dp) [1..lastKey s]) \<and>
     (\<forall>i. starAt s i = None \<and> 1 \<le> i \<and> i \<le> lastKey s \<longrightarrow>
          i \<le> highestFK5 s \<and> keyItems s dp i = [UInt8 (Some 0xFF)]) \<and>
     (\<forall>i star. starAt s i = Some star \<longrightarrow>
          keyItems s dp i = markerItems s i @ recordItems s dp i star) \<and>
     (\<forall>a b. 43 \<le> lastKey s \<and> starAt s 41 = Some a \<and> starAt s 42 = None \<and> starAt s 43 = Some b \<longrightarrow>
        written w = (if dp then [UInt8 (Some 0xFD)] else []) @
          concat (map (keyItems s dp) [1..40]) @
          (markerItems s 41 @ recordItems s dp 41 a) @ [UInt8 (Some 0xFF)] @
          (markerItems s 43 @ recordItems s dp 43 b) @
          concat (map (keyItems s dp) [44..lastKey s]))"
proof -
  note ok = pipeline_keysOk [OF assms(1)]
  from writer_output [OF ok assms(2)] obtain w where
    run: "writeStarCatalog s dp = Inr w"
    and out: "written w = (if dp then [UInt8 (Some 0xFD)] else []) @
       concat (map (keyItems s dp) [1..lastKey s])"
    by blast
  have gaps: "i \<le> highestFK5 s \<and> keyItems s dp i = [UInt8 (Some 0xFF)]"
    if "starAt s i = None \<and> 1 \<le> i \<and> i \<le> lastKey s" for i
  proof -
    have "i \<le> highestFK5 s"
    proof (rule ccontr)
      assume "\<not> i \<le> highestFK5 s"
      then have "highestFK5 s < i" by simp
      from keysOk_index(1) [OF ok this] that starAt_index [OF ok, of i]
      show False by simp
    qed
    with that show ?thesis by (simp add: keyItems_simps)
  qed
  have recs: "keyItems s dp i = markerItems s i @ recordItems s dp i star"
    if "starAt s i = Some star" for i star
    using that by (simp add: keyItems_simps)
  have ex: "written w = (if dp then [UInt8 (Some 0xFD)] else []) @
          concat (map (keyItems s dp) [1..40]) @
          (markerItems s 41 @ recordItems s dp 41 a) @ [UInt8 (Some 0xFF)] @
          (markerItems s 43 @ recordItems s dp 43 b) @
          concat (map (keyItems s dp) [44..lastKey s])"
    if h: "43 \<le> lastKey s \<and> starAt s 41 = Some a \<and> starAt s 42 = None \<and> starAt s 43 = Some b"
    for a b
  proof -
    from h have "[1..lastKey s] = [1..40] @ [41..lastKey s]"
      using upto_split1 [of 1 41 "lastKey s"] by simp
    also from h have "[41..lastKey s] = 41 # 42 # 43 # [44..lastKey s]"
      by (simp add: upto_rec1 [of 41] upto_rec1 [of 42] upto_rec1 [of 43])
    finally have "[1..lastKey s] = [1..40] @ 41 # 42 # 43 # [44..lastKey s]" .
    with out h show ?thesis
      by (simp add: keyItems_simps)
  qed
  from run out gaps recs ex show ?thesis
    by (intro exI [of _ w] conjI allI impI) blast+
qed

theorem gap_bytes_witness:
  "pipeline example_sources = Inr example_final \<and> writable example_final False \<and>
   starAt example_final 42 = None \<and>
   keyItems example_final False 42 = [UInt8 (Some 0xFF)] \<and>
   (\<exists>w. writeStarCatalog example_final False = Inr w \<and>
      written w =
        concat (map (keyItems example_final False) [1..40]) @
        recordItems example_final False 41 (fk5Star (example_fk5_line 41)) @
        [UInt8 (Some 0xFF)] @
        recordItems example_final False 43 (fk5Star (example_fk5_line 43)) @
        concat (map (keyItems example_final False) [44..45]))"
proof -
  have m: "markerItems example_final 41 = []" "markerItems example_final 43 = []"
    by (simp_all add: markerItems_def example_final_def initialState_def)
  from gap_bytes [OF example_run example_final_writable]
  show ?thesis
    using example_run example_final_stars example_final_writable
    by (auto simp add: example_final_fields m)
qed

text \<open>
  C6. After a run of the five stages, and when every value written fits its width (else
  the writer stops with a \<^verbatim>\<open>RangeError\<close>), the writer succeeds with the output key by
  key, and the items written for a key with a record are the
  marker bytes \<^verbatim>\<open>0xFE\<close> and then the record, and the number of markers is the one the
  specification gives: one before the first record after the primary block, one before
  the first record after the bright-star additions if there are any, one before the first
  record after all stars, and two there exactly when there are no Hipparcos additions.
\<close>

theorem block_markers:
  assumes "pipeline src = Inr s" and "writable s dp"
  shows "\<exists>w. writeStarCatalog s dp = Inr w \<and>
     written w = (if dp then [UInt8 (Some 0xFD)] else []) @
       concat (map (keyItems s dp) [1..lastKey s]) \<and>
     (\<forall>i star. starAt s i = Some star \<longrightarrow>
          keyItems s dp i =
            replicate (spec_markerCount s i) (UInt8 (Some 0xFE)) @ recordItems s dp i star)"
proof -
  note ok = pipeline_keysOk [OF assms(1)]
  from writer_output [OF ok assms(2)] obtain w where
    run: "writeStarCatalog s dp = Inr w"
    and out: "written w = (if dp then [UInt8 (Some 0xFD)] else []) @
       concat (map (keyItems s dp) [1..lastKey s])"
    by blast
  have "keyItems s dp i = replicate (spec_markerCount s i) (UInt8 (Some 0xFE)) @ recordItems s dp i star"
    if "starAt s i = Some star" for i star
    using that by (simp add: keyItems_simps markerItems_count [OF ok])
  with run out show ?thesis by blast
qed

theorem block_markers_witness:
  "pipeline example_sources = Inr example_final \<and> writable example_final False \<and>
   totalBSC example_final = 1 \<and> totalHIP example_final = 0 \<and>
   (\<exists>star. starAt example_final 44 = Some star \<and>
      keyItems example_final False 44 = [UInt8 (Some 0xFE)] @ recordItems example_final False 44 star) \<and>
   keyItems example_final False 45 =
     [UInt8 (Some 0xFE), UInt8 (Some 0xFE)] @
     recordItems example_final False 45 (ngcStar example_ngc_line 224 None ''00 42.7 +41 16'' ''and'')"
proof -
  have c: "spec_markerCount example_final 44 = 1" "spec_markerCount example_final 45 = 2"
    by (simp_all add: spec_markerCount_def example_final_fields)
  obtain star where st: "starAt example_final 44 = Some star"
    using example_final_stars(5) by blast
  from block_markers [OF example_run example_final_writable]
  show ?thesis
    using example_run example_final_stars(4) st c example_final_writable
    by (auto simp add: example_final_fields numeral_2_eq_2)
qed

subsection \<open>Every record has a magnitude\<close>

lemma magnitudesKnown_alloc:
  "magnitudesKnown s \<Longrightarrow> vmag star \<noteq> None \<Longrightarrow> magnitudesKnown (snd (alloc star s))"
  by (simp add: magnitudesKnown_def alloc_def)

lemma magnitudesKnown_modify:
  "magnitudesKnown s \<Longrightarrow> (\<And>x. vmag x \<noteq> None \<Longrightarrow> vmag (f x) \<noteq> None) \<Longrightarrow>
   magnitudesKnown (modify r f s)"
  by (auto simp add: magnitudesKnown_def modify_def split: option.splits)

lemma magnitudesKnown_heap:
  "heap s' = heap s \<Longrightarrow> magnitudesKnown s' = magnitudesKnown s"
  by (simp add: magnitudesKnown_def)

lemma vmag_fk5Designation [simp]: "vmag (fk5Designation l star) = vmag star"
  by (simp add: fk5Designation_def Let_def)

lemma vmag_fk5Star: "vmag (fk5Star l) = Some (fk5_vmag l)"
  by (simp add: fk5Star_def Let_def emptyStar_def split: option.splits)

lemma vmag_brightStar: "vmag (brightStar l) = Some (bsc_vmag l)"
  by (simp add: brightStar_def Let_def emptyStar_def)

lemma vmag_hipUpdate: "vmag (hipUpdate l star) \<noteq> None"
  by (simp add: hipUpdate_def)

lemma vmag_ngcStar: "vmag (ngcStar l n info ra c) = Some (nd_vmag l)"
  by (simp add: ngcStar_def Let_def emptyStar_def)

lemma crossIndexLine_heap:
  assumes "heap (crossIndexLine s l) r = Some star"
  shows "heap s r = Some star \<or> star = fk5Star l \<or> vmag star = Some 1.6"
  using assms
  by (auto simp add: crossIndexLine_def alloc_def Let_def split: if_splits)

lemma crossIndexLine_magnitudes:
  assumes "magnitudesKnown s"
  shows "magnitudesKnown (crossIndexLine s l)"
  unfolding magnitudesKnown_def
proof (intro allI impI)
  fix r star assume "heap (crossIndexLine s l) r = Some star"
  from crossIndexLine_heap [OF this] assms show "vmag star \<noteq> None"
    by (auto simp add: magnitudesKnown_def vmag_fk5Star)
qed

lemma processCrossIndex_magnitudes:
  "magnitudesKnown s \<Longrightarrow> magnitudesKnown (processCrossIndex s ls)"
  unfolding processCrossIndex_def
  by (induction ls arbitrary: s) (simp_all add: crossIndexLine_magnitudes)

lemma heap_modify:
  "heap (modify r f s) r' = (if r' = r then map_option f (heap s r) else heap s r')"
  by (simp add: modify_def split: option.splits)

lemma magnitudesKnown_modify_eq:
  assumes "\<And>x. vmag (f x) = vmag x"
  shows "magnitudesKnown (modify r f s) = magnitudesKnown s"
proof
  assume m: "magnitudesKnown (modify r f s)"
  show "magnitudesKnown s"
    unfolding magnitudesKnown_def
  proof (intro allI impI)
    fix r' star assume h: "heap s r' = Some star"
    show "vmag star \<noteq> None"
    proof (cases "r' = r")
      case True
      with h have "heap (modify r f s) r = Some (f star)" by (simp add: heap_modify)
      with m have "vmag (f star) \<noteq> None" unfolding magnitudesKnown_def by blast
      with assms [of star] show ?thesis by simp
    next
      case False
      with h have "heap (modify r f s) r' = Some star" by (simp add: heap_modify)
      with m show ?thesis unfolding magnitudesKnown_def by blast
    qed
  qed
next
  assume m: "magnitudesKnown s"
  show "magnitudesKnown (modify r f s)"
    by (rule magnitudesKnown_modify [OF m]) (simp add: assms)
qed

lemma magnitudesKnown_fields [simp]:
  "magnitudesKnown (s\<lparr>bsc2fk5 := a, bscIndex := b\<rparr>) = magnitudesKnown s"
  "magnitudesKnown (s\<lparr>hd2bsc := c\<rparr>) = magnitudesKnown s"
  "magnitudesKnown (s\<lparr>bsc2fk5 := a\<rparr>) = magnitudesKnown s"
  "magnitudesKnown (s\<lparr>fk5UpdatesFromHIP := n\<rparr>) = magnitudesKnown s"
  "magnitudesKnown (s\<lparr>bscUpdatesFromHIP := n\<rparr>) = magnitudesKnown s"
  "magnitudesKnown (s\<lparr>ngcs := g\<rparr>) = magnitudesKnown s"
  by (simp_all add: magnitudesKnown_def)

lemma annotate_magnitudes [simp]:
  "magnitudesKnown (annotateBrightStar s l k r) = magnitudesKnown s"
  unfolding annotateBrightStar_def Let_def
  by (simp add: magnitudesKnown_modify_eq)

lemma addBrightStar_magnitudes:
  "magnitudesKnown s \<Longrightarrow> magnitudesKnown (snd (addBrightStar s l))"
  by (simp add: magnitudesKnown_def addBrightStar_def alloc_def Let_def vmag_brightStar)

lemma mergeLine_magnitudes:
  "magnitudesKnown s \<Longrightarrow> magnitudesKnown (mergeLine s l)"
  by (rule mergeLine_shape) (simp_all add: addBrightStar_magnitudes)

lemma afterBrightStars_magnitudes: "magnitudesKnown (afterBrightStars src)"
proof -
  have 0: "magnitudesKnown initialState"
    by (simp add: magnitudesKnown_def initialState_def)
  have fold: "magnitudesKnown s \<Longrightarrow> magnitudesKnown (foldl mergeLine s ls)" for s ls
    by (induction ls arbitrary: s) (simp_all add: mergeLine_magnitudes)
  show ?thesis
    unfolding afterBrightStars_def processYaleBrightStarCatalog_def
    by (rule fold) (simp add: processCrossIndex_magnitudes [OF 0])
qed

lemma noteLine_magnitudes:
  assumes "noteLine s l = Inr s1" and "magnitudesKnown s"
  shows "magnitudesKnown s1"
  using assms
  by (auto simp add: noteLine_def Let_def magnitudesKnown_modify_eq split: if_splits option.splits)

lemma notes_magnitudes:
  assumes "processYaleBrightStarCatalogNotes s ls = Inr s'" and "magnitudesKnown s"
  shows "magnitudesKnown s'"
  using assms
proof (induction ls arbitrary: s)
  case Nil
  then show ?case by simp
next
  case (Cons l ls)
  from Cons.prems(1) obtain s1 where 1: "noteLine s l = Inr s1"
    and 2: "processYaleBrightStarCatalogNotes s1 ls = Inr s'"
    by (auto split: sum.splits)
  from Cons.IH [OF 2 noteLine_magnitudes [OF 1 Cons.prems(2)]] show ?case .
qed



lemma addHipparcosStar_magnitudes:
  assumes "magnitudesKnown s"
  shows "magnitudesKnown (addHipparcosStar s l)"
  using assms vmag_hipUpdate
  by (simp add: magnitudesKnown_def addHipparcosStar_def alloc_def Let_def)



lemma hipLine_magnitudes:
  assumes "hipLine s l = Inr (stop, s')" and "magnitudesKnown s"
  shows "magnitudesKnown s'"
proof -
  have upd: "magnitudesKnown (modify r (hipUpdate l) t)" if "magnitudesKnown t" for r t
    using that by (rule magnitudesKnown_modify) (rule vmag_hipUpdate)
  from hipLine_shape [OF assms(1)] show ?thesis
  proof (elim disjE exE)
    assume "s' = s"
    with assms(2) show ?thesis by simp
  next
    fix r n assume "s' = modify r (hipUpdate l) (s\<lparr>fk5UpdatesFromHIP := n\<rparr>)"
    with upd [of "s\<lparr>fk5UpdatesFromHIP := n\<rparr>" r] assms(2) show ?thesis by simp
  next
    fix r n assume "s' = modify r (hipUpdate l) (s\<lparr>bscUpdatesFromHIP := n\<rparr>)"
    with upd [of "s\<lparr>bscUpdatesFromHIP := n\<rparr>" r] assms(2) show ?thesis by simp
  next
    assume "s' = addHipparcosStar s l"
    with addHipparcosStar_magnitudes [OF assms(2)] show ?thesis by simp
  qed
qed


lemma hipLoop_magnitudes:
  assumes "hipLoop s ls = Inr s'" and "magnitudesKnown s"
  shows "magnitudesKnown s'"
  using assms
proof (induction ls arbitrary: s)
  case Nil
  then show ?case by simp
next
  case (Cons l ls)
  from Cons.prems(1) obtain stop s1 where 1: "hipLine s l = Inr (stop, s1)"
    and 2: "if stop then s' = s1 else hipLoop s1 ls = Inr s'"
    by (auto split: sum.splits if_splits)
  note m = hipLine_magnitudes [OF 1 Cons.prems(2)]
  show ?case
  proof (cases stop)
    case True
    with 2 m show ?thesis by simp
  next
    case False
    with 2 have "hipLoop s1 ls = Inr s'" by simp
    from Cons.IH [OF this m] show ?thesis .
  qed
qed



lemma ngcDataLoop_magnitudes:
  assumes "ngcDataLoop (s, d) ls = Inr (s', d')" and "magnitudesKnown s"
  shows "magnitudesKnown s'"
  using assms
proof (induction ls arbitrary: s d)
  case Nil
  then show ?case by simp
next
  case (Cons l ls)
  from Cons.prems(1) obtain s1 d1 where
    1: "ngcDataLine (s, d) l = Inr (s1, d1)" and 2: "ngcDataLoop (s1, d1) ls = Inr (s', d')"
    by (auto split: sum.splits)
  have "magnitudesKnown (addDeepSkyObject s (ngcStar l n info ra c))" for n info ra c
    using Cons.prems(2) by (simp add: magnitudesKnown_def addDeepSkyObject_eq vmag_ngcStar)
  with ngcDataLine_shape [OF 1] Cons.prems(2) have "magnitudesKnown s1" by auto
  from Cons.IH [OF 2 this] show ?case .
qed

lemma pipeline_magnitudes:
  assumes "pipeline src = Inr s"
  shows "magnitudesKnown s"
proof -
  from pipeline_stages [OF assms] obtain s3 s4 d where
    n: "processYaleBrightStarCatalogNotes (afterBrightStars src) (bscNotes src) = Inr s3"
    and h: "hipLoop s3 (hipparcosData src) = Inr s4"
    and g: "ngcDataLoop (processNgcNames (appendPleiades s4) (ngcNames src), 0) (ngcData src) = Inr (s, d)"
    by blast
  have 3: "magnitudesKnown s3"
    by (rule notes_magnitudes [OF n afterBrightStars_magnitudes])
  have 4: "magnitudesKnown s4"
    by (rule hipLoop_magnitudes [OF h 3])
  have "heap (processNgcNames (appendPleiades s4) (ngcNames src)) = heap s4"
    by (simp add: processNgcNames_def appendPleiades_def Let_def split: option.splits)
  from 4 have "magnitudesKnown (processNgcNames (appendPleiades s4) (ngcNames src))"
    unfolding magnitudesKnown_heap [OF \<open>heap (processNgcNames (appendPleiades s4) (ngcNames src)) = heap s4\<close>] .
  from ngcDataLoop_magnitudes [OF g this] show ?thesis .
qed

text \<open>
  The bytes of some magnitudes. The magnitudes \<open>-1.35\<close> and \<open>0.15\<close> give 6 and 22; the
  same formula in exact arithmetic would give 7 and 22 for these numbers, and 6 and 21
  for their doubles.
\<close>

lemma compressMag_examples:
  "compressMag (-1.5) = Some 5" "compressMag 30.0 = Some 255" "compressMag 0 = Some 20"
  "compressMag (-1.35) = Some 6" "compressMag 0.15 = Some 22"
  "toDouble (-1.35) = Finite (- (3039929748475085 / 2 ^ 51))"
  "toDouble 0.15 = Finite (5404319552844595 / 2 ^ 55)"
  by (simp_all add: byte_eval double_eval)

lemma exact_arithmetic_examples:
  "max 0 (min 255 (round ((- 1.35 + 2.0) * 10 :: real))) = 7"
  "max 0 (min 255 (round ((0.15 + 2.0) * 10 :: real))) = 22"
  "max 0 (min 255 (round ((- (3039929748475085 / 2 ^ 51) + 2.0) * 10 :: real))) = 6"
  "max 0 (min 255 (round ((5404319552844595 / 2 ^ 55 + 2.0) * 10 :: real))) = 21"
  by (simp_all add: round_def)

text \<open>
  C4. Every record of the registry at the end of a run has a magnitude \<open>v\<close>, and the ninth
  item written for it, the magnitude byte, is \<open>compressMag v\<close>, which is the byte of the
  specification: the product of 10 and the sum of the magnitude and 2, in the arithmetic
  of the program, rounded to the nearest integer, halves upwards, and clamped to
  \<open>0 .. 255\<close>. Magnitude \<open>-1.5\<close> gives 5 and magnitude \<open>30.0\<close> gives 255.
\<close>

theorem magnitude_byte:
  assumes "pipeline src = Inr s" and "starAt s i = Some star"
  shows "(\<exists>v. vmag star = Some v \<and>
            recordItems s dp i star ! 8 = UInt8 (compressMag v) \<and>
            compressMag v = spec_magnitudeByte v) \<and>
         compressMag (-1.5) = Some 5 \<and> compressMag 30.0 = Some 255"
proof -
  from assms(2) obtain r where "heap s r = Some star"
    by (auto simp add: starAt_def split: option.splits)
  with pipeline_magnitudes [OF assms(1)] obtain v where "vmag star = Some v"
    by (auto simp add: magnitudesKnown_def)
  then have "vmag star = Some v \<and> recordItems s dp i star ! 8 = UInt8 (compressMag v) \<and>
      compressMag v = spec_magnitudeByte v"
    by (simp add: recordItems_mag compressMag_spec)
  then show ?thesis using compressMag_examples(1,2) by blast
qed

theorem magnitude_byte_witness:
  "pipeline example_sources = Inr example_final \<and>
   starAt example_final 41 = Some (fk5Star (example_fk5_line 41)) \<and>
   vmag (fk5Star (example_fk5_line 41)) = Some 0 \<and>
   recordItems example_final False 41 (fk5Star (example_fk5_line 41)) ! 8 = UInt8 (Some 20) \<and>
   spec_magnitudeByte 0 = Some 20"
proof -
  let ?A = "fk5Star (example_fk5_line 41)"
  have v: "vmag ?A = Some 0"
    by (simp add: vmag_fk5Star example_fk5_line_def)
  from magnitude_byte [OF example_run example_final_stars(1), of False]
  obtain w where "vmag ?A = Some w"
    and "recordItems example_final False 41 ?A ! 8 = UInt8 (compressMag w)"
    and "compressMag w = spec_magnitudeByte w"
    by blast
  moreover from this(1) v have "w = 0" by simp
  ultimately show ?thesis
    using example_run example_final_stars(1) v compressMag_examples(3)
    by simp
qed

end
